theory Spec2Isabelle
  imports Complex_Main
begin

section \<open>Data model of \<open>client/src/providers/accounts.tsx\<close>\<close>

text \<open>
  The provider keeps a pool of program accounts paired with fee payers. This theory embeds
  its cost calculation, its batch submitter, the provisioning and teardown runs and the
  React state machine around them.

  JavaScript numbers are IEEE doubles. Every amount the code computes is a
  non-negative integer, the positive infinity of \<open>1000 / 0\<close>, or the \<open>NaN\<close> of
  \<open>Infinity * 0\<close>; \<open>Num n\<close> is the double whose value is the natural \<open>n\<close>. A sum or
  a product of two such doubles is the exact sum or product rounded to the nearest double,
  ties to the even significand.
\<close>

datatype number = Num nat | Infinity | NaN

text \<open>The number of binary digits of a natural.\<close>

fun bitLength :: "nat \<Rightarrow> nat" where
  "bitLength n = (if n = 0 then 0 else Suc (bitLength (n div 2)))"

declare bitLength.simps [simp del]

text \<open>
  The double nearest to a natural. A natural of at most 53 binary digits is a double.
  Of a longer one a double keeps the 53 leading digits \<open>q\<close> and drops the \<open>e\<close> digits
  \<open>r\<close> below them: it rounds up when \<open>r\<close> is more than half of \<open>2^e\<close>, or is the
  half and \<open>q\<close> is odd. What rounds to \<open>2^1024\<close> or more is \<open>Infinity\<close>.
\<close>

definition roundDouble :: "nat \<Rightarrow> number" where
  "roundDouble n =
     (if bitLength n \<le> 53 then Num n
      else let e = bitLength n - 53;
               q = n div 2 ^ e;
               r = n mod 2 ^ e;
               up = (2 ^ e < 2 * r \<or> (2 * r = 2 ^ e \<and> odd q));
               m = (if up then q + 1 else q) * 2 ^ e
           in if m < 2 ^ 1024 then Num m else Infinity)"

fun times_number :: "number \<Rightarrow> number \<Rightarrow> number" where
  "times_number (Num a) (Num b) = roundDouble (a * b)"
| "times_number NaN y = NaN"
| "times_number x NaN = NaN"
| "times_number Infinity (Num b) = (if b = 0 then NaN else Infinity)"
| "times_number (Num a) Infinity = (if a = 0 then NaN else Infinity)"
| "times_number Infinity Infinity = Infinity"

fun plus_number :: "number \<Rightarrow> number \<Rightarrow> number" where
  "plus_number (Num a) (Num b) = roundDouble (a + b)"
| "plus_number NaN y = NaN"
| "plus_number x NaN = NaN"
| "plus_number Infinity y = Infinity"
| "plus_number x Infinity = Infinity"

datatype Status = initializing | inactive | creating | closing | active

datatype PublicKey = PublicKey nat

record Keypair =
  publicKey :: PublicKey
  secretKey :: nat

text \<open>
  \<open>Config\<close> (lines 24-28). The provider's state variable holding it has lost its name in
  the source (\<open>const [, set] = React.useState<Config>()\<close>); it is called \<open>accounts\<close>
  below.
\<close>

record Config =
  program :: "PublicKey list"
  feePayerKeypairs :: "Keypair list"
  accountCapacity :: number

text \<open>\<open>AccountCosts\<close> (lines 30-34); the field \<open>total\<close> is \<open>total_lamports\<close> here.\<close>

record AccountCosts =
  total_lamports :: number
  feeAccountCost :: number
  programAccountCost :: number

text \<open>
  Every \<open>throw new Error(...)\<close> of the file is one constructor; \<open>RpcError\<close> stands for
  whatever the connection rejects with.
\<close>

datatype error =
    CantCloseUntilConnectionValid   \<comment> \<open>line 97\<close>
  | CantCreateIfWalletNotSetup      \<comment> \<open>line 99\<close>
  | InvalidConnection               \<comment> \<open>line 117\<close>
  | MissingBreakProgramId           \<comment> \<open>line 119\<close>
  | MissingWallet                   \<comment> \<open>line 121\<close>
  | CalculatingCosts                \<comment> \<open>line 123\<close>
  | InternalError                   \<comment> \<open>line 253\<close>
  | CouldntConfirmTransaction       \<comment> \<open>line 289\<close>
  | RpcError nat

datatype Instruction =
    CreateAccount PublicKey PublicKey number number PublicKey
      \<comment> \<open>fromPubkey, newAccountPubkey, lamports, space, programId\<close>
  | Transfer PublicKey PublicKey number
      \<comment> \<open>fromPubkey, toPubkey, lamports\<close>

type_synonym Transaction = "Instruction list"

datatype preflight = confirmed

section \<open>The outside world\<close>

text \<open>
  The connection is an unreliable network: the answer to a request depends on the request
  and on how many requests were made before it (the first argument of every method).
  \<open>getRecentBlockhash\<close> is reduced to the one field the code reads,
  \<open>feeCalculator.lamportsPerSignature\<close>. The amounts it answers with are JavaScript
  numbers, given by their values. \<open>arrival n\<close> is the moment the answer to the request
  with number \<open>n\<close> comes in; it matters where several requests are under way at once.
\<close>

record Connection =
  getBalance :: "nat \<Rightarrow> PublicKey \<Rightarrow> error + nat"
  getMinimumBalanceForRentExemption :: "nat \<Rightarrow> number \<Rightarrow> error + nat"
  getRecentBlockhash :: "nat \<Rightarrow> error + nat"
  confirmTransaction :: "nat \<Rightarrow> Transaction \<Rightarrow> Keypair list \<Rightarrow> preflight option \<Rightarrow> error + unit"
  arrival :: "nat \<Rightarrow> nat"

text \<open>What an observer sees of a run, in order.\<close>

datatype event =
    Sent Transaction "Keypair list" "preflight option" bool
      \<comment> \<open>one call of sendAndConfirmTransaction and whether it was confirmed\<close>
  | WarnClosingLocked                 \<comment> \<open>console.warn, line 101\<close>
  | WarnCreationLocked                \<comment> \<open>console.warn, line 125\<close>
  | WarnRequiresInactive Status       \<comment> \<open>console.warn, line 148\<close>
  | ErrorCostsRetrying error          \<comment> \<open>console.error, line 83\<close>
  | ErrorFailedToCreate error         \<comment> \<open>console.error, line 141\<close>
  | ErrorRetriesRemaining nat error   \<comment> \<open>console.error, lines 291-294\<close>
  | Sleep nat                         \<comment> \<open>await sleep(ms), line 86\<close>

text \<open>
  The effects of a run: the number of requests made so far, the number of
  \<open>new Keypair()\<close> calls so far, and the log of what an observer sees.
\<close>

record world =
  requests :: nat
  generated :: nat
  events :: "event list"

definition emit :: "event \<Rightarrow> world \<Rightarrow> world" where
  "emit ev w = w\<lparr>events := events w @ [ev]\<rparr>"

definition rpc :: "(nat \<Rightarrow> error + 'a) \<Rightarrow> world \<Rightarrow> (error + 'a) \<times> world" where
  "rpc ask w = (ask (requests w), w\<lparr>requests := Suc (requests w)\<rparr>)"

definition sendAndConfirmTransaction ::
  "Connection \<Rightarrow> Transaction \<Rightarrow> Keypair list \<Rightarrow> preflight option \<Rightarrow> world
     \<Rightarrow> (error + unit) \<times> world" where
  "sendAndConfirmTransaction c tx signers opt w =
     (case rpc (\<lambda>n. confirmTransaction c n tx signers opt) w of
        (res, w1) \<Rightarrow> (res, emit (Sent tx signers opt (\<not> isl res)) w1))"

section \<open>Cost calculation (lines 185-193, 221-240)\<close>

definition TX_PER_BYTE :: nat where
  "TX_PER_BYTE = 8"

text \<open>
  \<open>Math.ceil(1000 / parallelization / TX_PER_BYTE)\<close>. The parallelization is a count.
  For a count of at least one the double division is off by a relative \<open>2^-53\<close> at most
  while \<open>125 / parallelization\<close> is an integer or at least \<open>1 / parallelization\<close> away
  from one, so the ceiling of the doubles is the ceiling of the exact quotient. At zero
  the quotient is \<open>Infinity\<close>.
\<close>

definition calculateProgrampace :: "nat \<Rightarrow> number" where
  "calculateProgrampace parallelization =
     (if parallelization = 0 then Infinity
      else Num (nat \<lceil>1000 / rat_of_nat parallelization / rat_of_nat TX_PER_BYTE\<rceil>))"

definition calculateTransactionsPerAccount :: "number \<Rightarrow> number" where
  "calculateTransactionsPerAccount programpace = times_number (Num TX_PER_BYTE) programpace"

definition calculateCosts :: "Connection \<Rightarrow> nat \<Rightarrow> world \<Rightarrow> (error + AccountCosts) \<times> world" where
  "calculateCosts c parallelization w =
     (let programpace = calculateProgrampace parallelization in
      case rpc (\<lambda>n. getMinimumBalanceForRentExemption c n programpace) w of
        (Inl err, w1) \<Rightarrow> (Inl err, w1)
      | (Inr programAccountCost', w1) \<Rightarrow>
      case rpc (\<lambda>n. getMinimumBalanceForRentExemption c n (Num 0)) w1 of
        (Inl err, w2) \<Rightarrow> (Inl err, w2)
      | (Inr feeAccountRent, w2) \<Rightarrow>
      case rpc (getRecentBlockhash c) w2 of
        (Inl err, w3) \<Rightarrow> (Inl err, w3)
      | (Inr signatureFee, w3) \<Rightarrow>
        let txPerAccount = calculateTransactionsPerAccount programpace;
            feeAccountCost' =
              plus_number (times_number txPerAccount (Num signatureFee)) (Num feeAccountRent)
        in (Inr \<lparr>total_lamports =
                   times_number (Num parallelization)
                     (plus_number (Num programAccountCost') feeAccountCost'),
                 feeAccountCost = feeAccountCost',
                 programAccountCost = Num programAccountCost'\<rparr>, w3))"

section \<open>The batch submitter (lines 242-297)\<close>

text \<open>
  The transaction of one batch: for every index below \<open>batchSize\<close> a create-account
  instruction for \<open>newProgram[i]\<close> and a transfer to \<open>newFeePayers[i]\<close>. It is built
  after the length check, so both reads are in range.
\<close>

definition batchTransaction ::
  "PublicKey \<Rightarrow> Keypair \<Rightarrow> AccountCosts \<Rightarrow> Keypair list \<Rightarrow> Keypair list \<Rightarrow> number
     \<Rightarrow> Transaction" where
  "batchTransaction breakProgramId payer costs newFeePayers newProgram programpace =
     concat (map (\<lambda>i.
        [CreateAccount (publicKey payer) (publicKey (newProgram ! i))
           (programAccountCost costs) programpace breakProgramId,
         Transfer (publicKey payer) (publicKey (newFeePayers ! i)) (feeAccountCost costs)])
       [0..<length newProgram])"

text \<open>
  The loop \<open>while (retries > 0)\<close> of lines 276-296, entered with \<open>retries\<close> attempts
  left: a confirmed submission breaks out of it, a failed one uses an attempt up, and
  the failure that uses the last one up throws. A failure that leaves attempts is logged
  (the remaining count is the argument of the message) and the loop goes round at once.
\<close>

fun submitWithRetries ::
  "Connection \<Rightarrow> Transaction \<Rightarrow> Keypair list \<Rightarrow> nat \<Rightarrow> world \<Rightarrow> (error + unit) \<times> world" where
  "submitWithRetries c tx signers 0 w = (Inr (), w)"
| "submitWithRetries c tx signers (Suc retries) w =
     (case sendAndConfirmTransaction c tx signers (Some confirmed) w of
        (Inr ok, w1) \<Rightarrow> (Inr (), w1)
      | (Inl err, w1) \<Rightarrow>
          if retries = 0 then (Inl CouldntConfirmTransaction, w1)
          else submitWithRetries c tx signers retries
                 (emit (ErrorRetriesRemaining retries err) w1))"

definition underscore_createAccountBatch ::
  "Connection \<Rightarrow> PublicKey \<Rightarrow> Keypair \<Rightarrow> AccountCosts \<Rightarrow> Keypair list \<Rightarrow> Keypair list
     \<Rightarrow> number \<Rightarrow> world \<Rightarrow> (error + unit) \<times> world" where
  "underscore_createAccountBatch c breakProgramId payer costs newFeePayers newProgram programpace w =
     (let batchSize = length newProgram in
      if batchSize \<noteq> length newFeePayers then (Inl InternalError, w)
      else submitWithRetries c
             (batchTransaction breakProgramId payer costs newFeePayers newProgram programpace)
             (payer # newProgram) 3 w)"

section \<open>Provisioning and teardown (lines 195-219, 299-335)\<close>

text \<open>\<open>xs.slice(from, to)\<close> for \<open>0 \<le> from \<le> to\<close>.\<close>

definition slice :: "'a list \<Rightarrow> nat \<Rightarrow> nat \<Rightarrow> 'a list" where
  "slice xs from to = take (to - from) (drop from xs)"

definition BATCH_SIZE :: nat where
  "BATCH_SIZE = 5"

text \<open>
  The loop of lines 314-327, entered with \<open>accountIndex\<close>. A batch that throws ends the
  run with its error.
\<close>

function createBatches ::
  "Connection \<Rightarrow> PublicKey \<Rightarrow> Keypair \<Rightarrow> AccountCosts \<Rightarrow> Keypair list \<Rightarrow> Keypair list
     \<Rightarrow> number \<Rightarrow> nat \<Rightarrow> nat \<Rightarrow> world \<Rightarrow> (error + unit) \<times> world" where
  "createBatches c breakProgramId payer costs feePayers program' programpace parallelization
       accountIndex w =
     (if accountIndex < parallelization then
        (case underscore_createAccountBatch c breakProgramId payer costs
                (slice feePayers accountIndex (accountIndex + BATCH_SIZE))
                (slice program' accountIndex (accountIndex + BATCH_SIZE))
                programpace w of
           (Inl err, w1) \<Rightarrow> (Inl err, w1)
         | (Inr ok, w1) \<Rightarrow>
             createBatches c breakProgramId payer costs feePayers program' programpace
               parallelization (accountIndex + BATCH_SIZE) w1)
      else (Inr (), w))"
  by pat_completeness auto
termination
  by (relation "measure (\<lambda>(c, pid, payer, costs, fps, prog, space, parallelization, accountIndex, w).
        parallelization - accountIndex)")
     (auto simp: BATCH_SIZE_def)

declare createBatches.simps [simp del]

text \<open>
  \<open>new Keypair()\<close> draws from the entropy of the machine: \<open>rng n\<close> is the keypair that
  the \<open>n\<close>-th call returns. \<open>Array(parallelization).fill(0).map(() => new Keypair())\<close>
  makes \<open>parallelization\<close> calls.
\<close>

definition newKeypairs :: "(nat \<Rightarrow> Keypair) \<Rightarrow> nat \<Rightarrow> world \<Rightarrow> Keypair list \<times> world" where
  "newKeypairs rng count w =
     (map rng [generated w..<generated w + count], w\<lparr>generated := generated w + count\<rparr>)"

text \<open>
  \<open>getFeePayers\<close> is imported from \<open>utils\<close>, which is not among the sources: the runs
  take it as the argument \<open>getFeePayers\<close>, called with the parallelization as in lines
  201 and 307.
\<close>

definition underscore_create ::
  "(nat \<Rightarrow> Keypair list) \<Rightarrow> (nat \<Rightarrow> Keypair) \<Rightarrow> Connection \<Rightarrow> PublicKey \<Rightarrow> Keypair
     \<Rightarrow> AccountCosts \<Rightarrow> nat \<Rightarrow> world \<Rightarrow> (error + Config) \<times> world" where
  "underscore_create getFeePayers rng c breakProgramId payer costs parallelization w =
     (let programpace = calculateProgrampace parallelization;
          feePayers = getFeePayers parallelization;
          (program', w0) = newKeypairs rng parallelization w
      in case createBatches c breakProgramId payer costs feePayers program' programpace
                parallelization 0 w0 of
           (Inl err, w1) \<Rightarrow> (Inl err, w1)
         | (Inr ok, w1) \<Rightarrow>
             let txPerAccount = calculateTransactionsPerAccount programpace
             in (Inr \<lparr>program = map publicKey program',
                      feePayerKeypairs = feePayers,
                      accountCapacity = txPerAccount\<rparr>, w1))"

text \<open>
  \<open>Promise.all\<close> over the balance requests (lines 202-206): \<open>map\<close> makes every request
  before any answer comes in. When no request is rejected the balances are those of the
  fee payers, in their order; otherwise the promise rejects with the rejection that comes
  in first.
\<close>

definition getBalances :: "Connection \<Rightarrow> PublicKey list \<Rightarrow> world \<Rightarrow> (error + nat list) \<times> world" where
  "getBalances c keys w =
     (let answers = map (\<lambda>i. getBalance c (requests w + i) (keys ! i)) [0..<length keys];
          rejected = filter (\<lambda>i. isl (answers ! i)) [0..<length keys];
          w1 = w\<lparr>requests := requests w + length keys\<rparr>
      in if rejected = [] then (Inr (map projr answers), w1)
         else (Inl (projl (answers ! arg_min_list (\<lambda>i. arrival c (requests w + i)) rejected)), w1))"

definition underscore_close ::
  "(nat \<Rightarrow> Keypair list) \<Rightarrow> Connection \<Rightarrow> Keypair \<Rightarrow> nat \<Rightarrow> world \<Rightarrow> (error + unit) \<times> world" where
  "underscore_close getFeePayers c payer parallelization w =
     (let feePayers = getFeePayers parallelization in
      case getBalances c (map publicKey feePayers) w of
        (Inl err, w1) \<Rightarrow> (Inl err, w1)
      | (Inr balances, w1) \<Rightarrow>
          sendAndConfirmTransaction c
            (map (\<lambda>i. Transfer (publicKey (feePayers ! i)) (publicKey payer) (Num (balances ! i)))
               [0..<length feePayers])
            (payer # feePayers) None w1)"

section \<open>The provider (lines 48-175)\<close>

text \<open>
  The React state and refs of \<open>Provider\<close>: the record holds the latest value of every
  state variable (an update is taken as made when it is asked for) and the current value
  of every ref.
\<close>

record provider =
  costs :: "AccountCosts option"
  status :: Status
  accounts :: "Config option"
  creationLock :: bool
  calculationCounter :: nat

text \<open>
  A render makes the callbacks \<open>close\<close> and \<open>create\<close> anew (\<open>useCallback\<close>, lines 95
  and 115), and each keeps the values of its render: connection, wallet, program id and
  parallelization, and also the \<open>status\<close> and the \<open>costs\<close> of the state. A callback
  called later still tests these; of the provider it reads only \<open>creationLock.current\<close>
  at the moment of the call. \<open>renderedStatus\<close> and \<open>renderedCosts\<close> are the \<open>status\<close>
  and \<open>costs\<close> a callback holds. The effect (line 59) reads connection and
  parallelization only.
\<close>

record env =
  connection :: "Connection option"
  wallet :: "Keypair option"
  breakProgramId :: "PublicKey option"
  parallelization :: nat
  renderedStatus :: Status
  renderedCosts :: "AccountCosts option"

text \<open>The values the callbacks of a render hold when the state is \<open>s\<close>.\<close>

definition render :: "provider \<Rightarrow> env \<Rightarrow> env" where
  "render s e = e\<lparr>renderedStatus := status s, renderedCosts := costs s\<rparr>"

definition initialProvider :: provider where
  "initialProvider =
     \<lparr>costs = None, status = initializing, accounts = None, creationLock = False,
      calculationCounter = 0\<rparr>"

text \<open>
  An asynchronous function runs up to its next \<open>await\<close>, and other code runs before it
  goes on. A task is what such a function still has to do, with the values its closure
  holds.
\<close>

datatype task =
    CostTask nat Connection nat
      \<comment> \<open>the loop of lines 66-87: savedCounter, connection, parallelization\<close>
  | CreateTask Connection PublicKey Keypair AccountCosts nat
      \<comment> \<open>create, waiting at line 131\<close>
  | CloseTask Connection Keypair nat
      \<comment> \<open>close, waiting at line 107\<close>

text \<open>The body of the effect, lines 60-65: it runs when the connection or the
  parallelization changes and starts the loop unless there is no connection.\<close>

definition effect :: "env \<Rightarrow> provider \<Rightarrow> provider \<times> task option" where
  "effect e s =
     (let s1 = s\<lparr>calculationCounter := calculationCounter s + 1,
                 status := initializing, accounts := None\<rparr>
      in case connection e of
           None \<Rightarrow> (s1, None)
         | Some c \<Rightarrow> (s1, Some (CostTask (calculationCounter s1) c (parallelization e))))"

text \<open>
  One round of the loop, lines 67-86; the first component says whether the loop has
  returned. The state it meets is the state at the moment \<open>calculateCosts\<close> resolves.
\<close>

definition costRound ::
  "nat \<Rightarrow> Connection \<Rightarrow> nat \<Rightarrow> provider \<Rightarrow> world \<Rightarrow> bool \<times> provider \<times> world" where
  "costRound savedCounter c parallelization' s w =
     (case calculateCosts c parallelization' w of
        (Inr accountCosts, w1) \<Rightarrow>
          (True,
           if calculationCounter s = savedCounter
           then s\<lparr>costs := Some accountCosts,
                  status := (if status s = initializing then inactive else status s)\<rparr>
           else s,
           w1)
      | (Inl err, w1) \<Rightarrow> (False, s, emit (Sleep 2000) (emit (ErrorCostsRetrying err) w1)))"

definition deactivate :: "provider \<Rightarrow> provider" where
  "deactivate s = (if \<not> creationLock s then s\<lparr>status := inactive\<rparr> else s)"

text \<open>
  \<open>close\<close> up to its \<open>await\<close> (lines 96-107): it throws, returns, or takes the lock and
  waits for \<open>_close\<close>; and from there on (lines 108-111), where \<open>finally\<close> lets the
  error of \<open>_close\<close> through. \<open>e\<close> holds the values of the callback, \<open>s\<close> is the
  provider at the moment of the call.
\<close>

definition close_begin :: "env \<Rightarrow> provider \<Rightarrow> world \<Rightarrow> (error + task option) \<times> provider \<times> world" where
  "close_begin e s w =
     (case connection e of
        None \<Rightarrow> (Inl CantCloseUntilConnectionValid, s, w)
      | Some c \<Rightarrow>
     (case wallet e of
        None \<Rightarrow> (Inl CantCreateIfWalletNotSetup, s, w)
      | Some payer \<Rightarrow>
        if creationLock s then (Inr None, s, emit WarnClosingLocked w)
        else if renderedStatus e = inactive then
          (Inr (Some (CloseTask c payer (parallelization e))),
           s\<lparr>creationLock := True, status := closing\<rparr>, w)
        else (Inr None, s, w)))"

definition close_end :: "error + unit \<Rightarrow> provider \<Rightarrow> world \<Rightarrow> (error + unit) \<times> provider \<times> world" where
  "close_end r s w = (r, s\<lparr>status := inactive, creationLock := False\<rparr>, w)"

text \<open>
  \<open>create\<close> up to its \<open>await\<close> (lines 116-131), and from there on (lines 138-146),
  where \<open>catch\<close> logs the error of \<open>_create\<close> and does not throw it again.
\<close>

definition create_begin :: "env \<Rightarrow> provider \<Rightarrow> world \<Rightarrow> (error + task option) \<times> provider \<times> world" where
  "create_begin e s w =
     (case connection e of
        None \<Rightarrow> (Inl InvalidConnection, s, w)
      | Some c \<Rightarrow>
     (case breakProgramId e of
        None \<Rightarrow> (Inl MissingBreakProgramId, s, w)
      | Some pid \<Rightarrow>
     (case wallet e of
        None \<Rightarrow> (Inl MissingWallet, s, w)
      | Some payer \<Rightarrow>
     (case renderedCosts e of
        None \<Rightarrow> (Inl CalculatingCosts, s, w)
      | Some cs \<Rightarrow>
        if creationLock s then (Inr None, s, emit WarnCreationLocked w)
        else if renderedStatus e = inactive then
          (Inr (Some (CreateTask c pid payer cs (parallelization e))),
           s\<lparr>creationLock := True, status := creating\<rparr>, w)
        else (Inr None, s, emit (WarnRequiresInactive (renderedStatus e)) w)))))"

definition create_end :: "error + Config \<Rightarrow> provider \<Rightarrow> world \<Rightarrow> (error + unit) \<times> provider \<times> world" where
  "create_end r s w =
     (case r of
        Inr newAccounts \<Rightarrow>
          (Inr (), s\<lparr>accounts := Some newAccounts, status := active, creationLock := False\<rparr>, w)
      | Inl err \<Rightarrow>
          (Inr (), s\<lparr>accounts := None, status := inactive, creationLock := False\<rparr>,
           emit (ErrorFailedToCreate err) w))"

text \<open>What is left of a task of \<open>create\<close> or \<open>close\<close>, run to its end.\<close>

fun finish ::
  "(nat \<Rightarrow> Keypair list) \<Rightarrow> (nat \<Rightarrow> Keypair) \<Rightarrow> task \<Rightarrow> provider \<Rightarrow> world
     \<Rightarrow> (error + unit) \<times> provider \<times> world" where
  "finish getFeePayers rng (CreateTask c pid payer cs parallelization') s w =
     (case underscore_create getFeePayers rng c pid payer cs parallelization' w of
        (r, w1) \<Rightarrow> create_end r s w1)"
| "finish getFeePayers rng (CloseTask c payer parallelization') s w =
     (case underscore_close getFeePayers c payer parallelization' w of
        (r, w1) \<Rightarrow> close_end r s w1)"
| "finish getFeePayers rng (CostTask savedCounter c parallelization') s w = (Inr (), s, w)"

text \<open>
  A call of either callback with nothing running in between: the value is what the
  returned promise settles with (\<open>Inl\<close>: it rejects).
\<close>

definition close ::
  "(nat \<Rightarrow> Keypair list) \<Rightarrow> (nat \<Rightarrow> Keypair) \<Rightarrow> env \<Rightarrow> provider \<Rightarrow> world
     \<Rightarrow> (error + unit) \<times> provider \<times> world" where
  "close getFeePayers rng e s w =
     (case close_begin e s w of
        (Inl err, s1, w1) \<Rightarrow> (Inl err, s1, w1)
      | (Inr None, s1, w1) \<Rightarrow> (Inr (), s1, w1)
      | (Inr (Some t), s1, w1) \<Rightarrow> finish getFeePayers rng t s1 w1)"

definition create ::
  "(nat \<Rightarrow> Keypair list) \<Rightarrow> (nat \<Rightarrow> Keypair) \<Rightarrow> env \<Rightarrow> provider \<Rightarrow> world
     \<Rightarrow> (error + unit) \<times> provider \<times> world" where
  "create getFeePayers rng e s w =
     (case create_begin e s w of
        (Inl err, s1, w1) \<Rightarrow> (Inl err, s1, w1)
      | (Inr None, s1, w1) \<Rightarrow> (Inr (), s1, w1)
      | (Inr (Some t), s1, w1) \<Rightarrow> finish getFeePayers rng t s1 w1)"

section \<open>Interleaved runs\<close>

text \<open>
  The runtime is single-threaded: between two \<open>await\<close>s nothing else runs. A run of the
  provider is a sequence of such uninterrupted pieces. \<open>_create\<close>, \<open>_close\<close> and
  \<open>calculateCosts\<close> touch the outside world only, so each is taken in one piece, with
  the part of the callback that follows it. A call of \<open>create\<close> or \<open>close\<close> comes
  with the values its callback holds; they may be those of any render, the current one
  or an earlier one.
\<close>

record system =
  prov :: provider
  outside :: world
  pending :: "task list"

datatype action =
    RunEffect env     \<comment> \<open>connection or parallelization changed: the effect runs\<close>
  | Advance nat       \<comment> \<open>the pending task at this position goes on\<close>
  | Deactivate
  | CallCreate env    \<comment> \<open>a \<open>create\<close> callback is called, of this or of an earlier render\<close>
  | CallClose env     \<comment> \<open>a \<open>close\<close> callback is called, of this or of an earlier render\<close>

definition spawn :: "task option \<Rightarrow> task list \<Rightarrow> task list" where
  "spawn t ts = (case t of None \<Rightarrow> ts | Some t' \<Rightarrow> ts @ [t'])"

definition dropTask :: "nat \<Rightarrow> task list \<Rightarrow> task list" where
  "dropTask k ts = take k ts @ drop (Suc k) ts"

fun step :: "(nat \<Rightarrow> Keypair list) \<Rightarrow> (nat \<Rightarrow> Keypair) \<Rightarrow> system \<Rightarrow> action \<Rightarrow> system" where
  "step getFeePayers rng sys (RunEffect e) =
     (case effect e (prov sys) of
        (s1, t) \<Rightarrow> sys\<lparr>prov := s1, pending := spawn t (pending sys)\<rparr>)"
| "step getFeePayers rng sys (Advance k) =
     (if k < length (pending sys) then
        (case pending sys ! k of
           CostTask savedCounter c parallelization' \<Rightarrow>
             (case costRound savedCounter c parallelization' (prov sys) (outside sys) of
                (returned, s1, w1) \<Rightarrow>
                  \<lparr>prov = s1, outside = w1,
                   pending = (if returned then dropTask k (pending sys) else pending sys)\<rparr>)
         | t \<Rightarrow>
             (case finish getFeePayers rng t (prov sys) (outside sys) of
                (r, s1, w1) \<Rightarrow>
                  \<lparr>prov = s1, outside = w1, pending = dropTask k (pending sys)\<rparr>))
      else sys)"
| "step getFeePayers rng sys Deactivate = sys\<lparr>prov := deactivate (prov sys)\<rparr>"
| "step getFeePayers rng sys (CallCreate e) =
     (case create_begin e (prov sys) (outside sys) of
        (r, s1, w1) \<Rightarrow>
          \<lparr>prov = s1, outside = w1,
           pending = spawn (case r of Inl err \<Rightarrow> None | Inr t \<Rightarrow> t) (pending sys)\<rparr>)"
| "step getFeePayers rng sys (CallClose e) =
     (case close_begin e (prov sys) (outside sys) of
        (r, s1, w1) \<Rightarrow>
          \<lparr>prov = s1, outside = w1,
           pending = spawn (case r of Inl err \<Rightarrow> None | Inr t \<Rightarrow> t) (pending sys)\<rparr>)"

definition run ::
  "(nat \<Rightarrow> Keypair list) \<Rightarrow> (nat \<Rightarrow> Keypair) \<Rightarrow> system \<Rightarrow> action list \<Rightarrow> system" where
  "run getFeePayers rng = foldl (step getFeePayers rng)"

definition initialWorld :: world where
  "initialWorld = \<lparr>requests = 0, generated = 0, events = []\<rparr>"

definition initialSystem :: system where
  "initialSystem = \<lparr>prov = initialProvider, outside = initialWorld, pending = []\<rparr>"

fun isOperation :: "task \<Rightarrow> bool" where
  "isOperation (CostTask savedCounter c parallelization') = False"
| "isOperation (CreateTask c pid payer cs parallelization') = True"
| "isOperation (CloseTask c payer parallelization') = True"

text \<open>The create and close operations that have started and not yet ended.\<close>

definition inFlight :: "system \<Rightarrow> task list" where
  "inFlight sys = filter isOperation (pending sys)"

text \<open>The confirmed submissions of a log, in order.\<close>

fun confirmedSends :: "event list \<Rightarrow> (Transaction \<times> Keypair list) list" where
  "confirmedSends [] = []"
| "confirmedSends (Sent tx signers opt ok # evs) =
     (if ok then (tx, signers) # confirmedSends evs else confirmedSends evs)"
| "confirmedSends (ev # evs) = confirmedSends evs"

text \<open>The submissions of a log, confirmed or not.\<close>

fun attempts :: "event list \<Rightarrow> nat" where
  "attempts [] = 0"
| "attempts (Sent tx signers opt ok # evs) = Suc (attempts evs)"
| "attempts (ev # evs) = attempts evs"

fun sleeps :: "event list \<Rightarrow> nat" where
  "sleeps [] = 0"
| "sleeps (Sleep ms # evs) = Suc (sleeps evs)"
| "sleeps (ev # evs) = sleeps evs"

section \<open>The fee payers\<close>

text \<open>
  Modelled from the spec: \<open>getFeePayers\<close>, imported from \<open>utils\<close>, is missing from the
  sources. The spec has a pool hold exactly \<open>parallelization\<close> fee-payer keypairs, and
  this is all that is taken from it: the statements below ask of the function handed to
  \<open>_create\<close> and \<open>_close\<close> that it returns as many keypairs as it is asked for. Whether
  the keypairs are made anew or found again the spec leaves open, and nothing below
  depends on it; what the helper may do besides returning its keypairs is not modelled.
  The enumeration of keypairs by lane is one function of the right length, for the
  examples.
\<close>

definition getFeePayers :: "nat \<Rightarrow> Keypair list" where
  "getFeePayers count =
     map (\<lambda>lane. \<lparr>publicKey = PublicKey (2 * lane + 1), secretKey = 2 * lane + 1\<rparr>) [0..<count]"

section \<open>Inputs for the examples\<close>

text \<open>
  An entropy whose keypairs are none of the fee payers of the examples, a connection that
  answers every request, one that confirms no transaction, one whose rents are large, a
  provider that has its costs and waits, and the values the callbacks of its render
  hold.
\<close>

definition sampleEntropy :: "nat \<Rightarrow> Keypair" where
  "sampleEntropy n = \<lparr>publicKey = PublicKey (2 * n), secretKey = 2 * n\<rparr>"

definition goodConnection :: Connection where
  "goodConnection =
     \<lparr>getBalance = (\<lambda>n k. Inr 7),
      getMinimumBalanceForRentExemption = (\<lambda>n space. case space of Num b \<Rightarrow> Inr (100 + b) | _ \<Rightarrow> Inl (RpcError n)),
      getRecentBlockhash = (\<lambda>n. Inr 5),
      confirmTransaction = (\<lambda>n tx signers opt. Inr ()),
      arrival = (\<lambda>n. n)\<rparr>"

definition deafConnection :: Connection where
  "deafConnection = goodConnection\<lparr>confirmTransaction := (\<lambda>n tx signers opt. Inl (RpcError n))\<rparr>"

definition richConnection :: Connection where
  "richConnection =
     goodConnection
       \<lparr>getMinimumBalanceForRentExemption :=
          (\<lambda>n space. if space = Num 0 then Inr 1 else Inr (2 ^ 53)),
        getRecentBlockhash := (\<lambda>n. Inr 0)\<rparr>"

definition sampleWallet :: Keypair where
  "sampleWallet = \<lparr>publicKey = PublicKey 1000, secretKey = 1000\<rparr>"

definition sampleCosts :: AccountCosts where
  "sampleCosts = \<lparr>total_lamports = Num 3000, feeAccountCost = Num 500, programAccountCost = Num 1000\<rparr>"

definition sampleEnv :: env where
  "sampleEnv =
     \<lparr>connection = Some goodConnection, wallet = Some sampleWallet,
      breakProgramId = Some (PublicKey 2000), parallelization = 2,
      renderedStatus = inactive, renderedCosts = Some sampleCosts\<rparr>"

definition idleProvider :: provider where
  "idleProvider = initialProvider\<lparr>costs := Some sampleCosts, status := inactive, calculationCounter := 1\<rparr>"


definition idleSystem :: system where
  "idleSystem = \<lparr>prov = idleProvider, outside = initialWorld, pending = []\<rparr>"

section \<open>Lemmas about the log and the retry loop\<close>

lemma attempts_append: "attempts (xs @ ys) = attempts xs + attempts ys"
  by (induction xs rule: attempts.induct) simp_all

lemma sleeps_append: "sleeps (xs @ ys) = sleeps xs + sleeps ys"
  by (induction xs rule: sleeps.induct) simp_all

lemma confirmedSends_append: "confirmedSends (xs @ ys) = confirmedSends xs @ confirmedSends ys"
  by (induction xs rule: confirmedSends.induct) simp_all

lemma send_fail:
  assumes "confirmTransaction c (requests w) tx signers opt = Inl err"
  shows "sendAndConfirmTransaction c tx signers opt w =
           (Inl err, \<lparr>requests = Suc (requests w), generated = generated w,
                      events = events w @ [Sent tx signers opt False]\<rparr>)"
  using assms by (simp add: sendAndConfirmTransaction_def rpc_def emit_def)

lemma send_ok:
  assumes "confirmTransaction c (requests w) tx signers opt = Inr u"
  shows "sendAndConfirmTransaction c tx signers opt w =
           (Inr u, \<lparr>requests = Suc (requests w), generated = generated w,
                      events = events w @ [Sent tx signers opt True]\<rparr>)"
  using assms by (simp add: sendAndConfirmTransaction_def rpc_def emit_def)

lemma retries_all_fail:
  assumes "\<forall>j<r. isl (confirmTransaction c (requests w + j) tx signers (Some confirmed))" "0 < r"
  shows "fst (submitWithRetries c tx signers r w) = Inl CouldntConfirmTransaction
       \<and> attempts (events (snd (submitWithRetries c tx signers r w))) = attempts (events w) + r
       \<and> sleeps (events (snd (submitWithRetries c tx signers r w))) = sleeps (events w)
       \<and> confirmedSends (events (snd (submitWithRetries c tx signers r w))) = confirmedSends (events w)
       \<and> requests (snd (submitWithRetries c tx signers r w)) = requests w + r"
  using assms
proof (induction r arbitrary: w)
  case 0
  then show ?case by simp
next
  case (Suc r)
  from Suc.prems(1) have "isl (confirmTransaction c (requests w + 0) tx signers (Some confirmed))"
    by blast
  then obtain err where e: "confirmTransaction c (requests w) tx signers (Some confirmed) = Inl err"
    by (cases "confirmTransaction c (requests w) tx signers (Some confirmed)") auto
  note s = send_fail [OF e]
  show ?case
  proof (cases "r = 0")
    case True
    then show ?thesis using s by (simp add: attempts_append sleeps_append confirmedSends_append)
  next
    case False
    define w2 where "w2 = emit (ErrorRetriesRemaining r err) \<lparr>requests = Suc (requests w), generated = generated w,
                      events = events w @ [Sent tx signers (Some confirmed) False]\<rparr>"
    have rq: "requests w2 = Suc (requests w)" by (simp add: w2_def emit_def)
    have "\<forall>j<r. isl (confirmTransaction c (requests w2 + j) tx signers (Some confirmed))"
      using Suc.prems(1) rq by (metis Suc_less_eq add_Suc_shift)
    from Suc.IH [OF this] False
    have ih: "fst (submitWithRetries c tx signers r w2) = Inl CouldntConfirmTransaction
       \<and> attempts (events (snd (submitWithRetries c tx signers r w2))) = attempts (events w2) + r
       \<and> sleeps (events (snd (submitWithRetries c tx signers r w2))) = sleeps (events w2)
       \<and> confirmedSends (events (snd (submitWithRetries c tx signers r w2))) = confirmedSends (events w2)
       \<and> requests (snd (submitWithRetries c tx signers r w2)) = requests w2 + r" by simp
    have step: "submitWithRetries c tx signers (Suc r) w = submitWithRetries c tx signers r w2"
      using s False by (simp add: w2_def)
    have ev: "events w2 = events w @ [Sent tx signers (Some confirmed) False, ErrorRetriesRemaining r err]"
      by (simp add: w2_def emit_def)
    show ?thesis unfolding step using ih rq by (simp add: ev attempts_append sleeps_append confirmedSends_append)
  qed
qed


lemma retries_first_success:
  assumes "\<forall>j<k. isl (confirmTransaction c (requests w + j) tx signers (Some confirmed))"
    and "\<not> isl (confirmTransaction c (requests w + k) tx signers (Some confirmed))"
    and "k < r"
  shows "fst (submitWithRetries c tx signers r w) = Inr ()
       \<and> attempts (events (snd (submitWithRetries c tx signers r w))) = attempts (events w) + (k + 1)
       \<and> sleeps (events (snd (submitWithRetries c tx signers r w))) = sleeps (events w)
       \<and> confirmedSends (events (snd (submitWithRetries c tx signers r w))) = confirmedSends (events w) @ [(tx, signers)]
       \<and> requests (snd (submitWithRetries c tx signers r w)) = requests w + (k + 1)"
  using assms
proof (induction r arbitrary: w k)
  case 0
  then show ?case by simp
next
  case (Suc r)
  show ?case
  proof (cases k)
    case 0
    with Suc.prems(2) obtain u where "confirmTransaction c (requests w) tx signers (Some confirmed) = Inr u"
      by (cases "confirmTransaction c (requests w) tx signers (Some confirmed)") auto
    from send_ok [OF this] 0 show ?thesis
      by (simp add: attempts_append sleeps_append confirmedSends_append)
  next
    case (Suc k')
    with Suc.prems(1) have "isl (confirmTransaction c (requests w + 0) tx signers (Some confirmed))"
      by blast
    then obtain err where e: "confirmTransaction c (requests w) tx signers (Some confirmed) = Inl err"
      by (cases "confirmTransaction c (requests w) tx signers (Some confirmed)") auto
    note s = send_fail [OF e]
    from Suc Suc.prems(3) have r0: "r \<noteq> 0" and k'r: "k' < r" by simp_all
    define w2 where "w2 = emit (ErrorRetriesRemaining r err) \<lparr>requests = Suc (requests w), generated = generated w,
                      events = events w @ [Sent tx signers (Some confirmed) False]\<rparr>"
    have rq: "requests w2 = Suc (requests w)" by (simp add: w2_def emit_def)
    have a: "\<forall>j<k'. isl (confirmTransaction c (requests w2 + j) tx signers (Some confirmed))"
      using Suc.prems(1) Suc rq by (metis Suc_less_eq add_Suc_shift)
    have b: "\<not> isl (confirmTransaction c (requests w2 + k') tx signers (Some confirmed))"
      using Suc.prems(2) Suc rq by simp
    note ih = Suc.IH [OF a b k'r]
    have step: "submitWithRetries c tx signers (Suc r) w = submitWithRetries c tx signers r w2"
      using s r0 by (simp add: w2_def)
    have ev: "events w2 = events w @ [Sent tx signers (Some confirmed) False, ErrorRetriesRemaining r err]"
      by (simp add: w2_def emit_def)
    show ?thesis unfolding step using ih rq Suc by (simp add: ev attempts_append sleeps_append confirmedSends_append)
  qed
qed

lemma retries_sleeps:
  "sleeps (events (snd (submitWithRetries c tx signers r w))) = sleeps (events w)"
proof (induction r arbitrary: w)
  case 0
  then show ?case by simp
next
  case (Suc r)
  show ?case
    by (cases "confirmTransaction c (requests w) tx signers (Some confirmed)")
       (simp_all add: sendAndConfirmTransaction_def rpc_def emit_def Suc.IH sleeps_append)
qed

section \<open>The retry bound of the batch submitter\<close>

text \<open>
  Claim C4. A batch whose lengths agree is submitted by \<open>_createAccountBatch\<close> at most
  three times, and the loop never sleeps. \<open>fails j\<close> says that the \<open>j\<close>-th submission of
  this call is rejected. When the three submissions are rejected the call throws
  "Couldn't confirm transaction" after exactly three attempts; when the first confirmed
  submission is the first, second or third, the call returns after exactly that many
  attempts.
\<close>

theorem createAccountBatch_retry_bound:
  assumes "length newProgram = length newFeePayers"
    and "tx = batchTransaction pid payer cs newFeePayers newProgram space"
    and "fails = (\<lambda>j. isl (confirmTransaction c (requests w + j) tx (payer # newProgram) (Some confirmed)))"
    and "out = underscore_createAccountBatch c pid payer cs newFeePayers newProgram space w"
  shows "sleeps (events (snd out)) = sleeps (events w)
      \<and> (fails 0 \<and> fails 1 \<and> fails 2 \<longrightarrow>
           fst out = Inl CouldntConfirmTransaction \<and> attempts (events (snd out)) = attempts (events w) + 3)
      \<and> (\<not> fails 0 \<longrightarrow>
           fst out = Inr () \<and> attempts (events (snd out)) = attempts (events w) + 1)
      \<and> (fails 0 \<and> \<not> fails 1 \<longrightarrow>
           fst out = Inr () \<and> attempts (events (snd out)) = attempts (events w) + 2)
      \<and> (fails 0 \<and> fails 1 \<and> \<not> fails 2 \<longrightarrow>
           fst out = Inr () \<and> attempts (events (snd out)) = attempts (events w) + 3)"
proof -
  have out: "out = submitWithRetries c tx (payer # newProgram) 3 w"
    using assms by (simp add: underscore_createAccountBatch_def)
  have lt3: "\<And>P. (\<forall>j<3::nat. P j) = (P 0 \<and> P 1 \<and> P 2)"
    by (auto simp: less_Suc_eq numeral_3_eq_3 numeral_2_eq_2)
  have a: "fails 0 \<and> fails 1 \<and> fails 2 \<Longrightarrow>
           fst out = Inl CouldntConfirmTransaction \<and> attempts (events (snd out)) = attempts (events w) + 3"
    unfolding out using retries_all_fail [of 3 c w tx "payer # newProgram"]
    by (simp add: lt3 assms(3))
  have b: "\<not> fails 0 \<Longrightarrow>
           fst out = Inr () \<and> attempts (events (snd out)) = attempts (events w) + 1"
    unfolding out using retries_first_success [of 0 c w tx "payer # newProgram" 3]
    by (simp add: assms(3))
  have c: "fails 0 \<and> \<not> fails 1 \<Longrightarrow>
           fst out = Inr () \<and> attempts (events (snd out)) = attempts (events w) + 2"
    unfolding out using retries_first_success [of 1 c w tx "payer # newProgram" 3]
    by (simp add: assms(3))
  have lt2: "\<And>P. (\<forall>j<2::nat. P j) = (P 0 \<and> P 1)"
    by (auto simp: less_Suc_eq numeral_2_eq_2)
  have d: "fails 0 \<and> fails 1 \<and> \<not> fails 2 \<Longrightarrow>
           fst out = Inr () \<and> attempts (events (snd out)) = attempts (events w) + 3"
    unfolding out using retries_first_success [of 2 c w tx "payer # newProgram" 3]
    by (simp add: assms(3) lt2)
  have s: "sleeps (events (snd out)) = sleeps (events w)"
    unfolding out by (rule retries_sleeps)
  from a b c d s show ?thesis by blast
qed

theorem createAccountBatch_retry_bound_witness:
  "fst (underscore_createAccountBatch deafConnection (PublicKey 2000) sampleWallet sampleCosts
          (getFeePayers 2) (map sampleEntropy [0..<2]) (Num 63) initialWorld)
     = Inl CouldntConfirmTransaction
   \<and> attempts (events (snd (underscore_createAccountBatch deafConnection (PublicKey 2000) sampleWallet sampleCosts
          (getFeePayers 2) (map sampleEntropy [0..<2]) (Num 63) initialWorld))) = 3
   \<and> sleeps (events (snd (underscore_createAccountBatch deafConnection (PublicKey 2000) sampleWallet sampleCosts
          (getFeePayers 2) (map sampleEntropy [0..<2]) (Num 63) initialWorld))) = 0
   \<and> fst (underscore_createAccountBatch goodConnection (PublicKey 2000) sampleWallet sampleCosts
          (getFeePayers 2) (map sampleEntropy [0..<2]) (Num 63) initialWorld)
     = Inr ()
   \<and> attempts (events (snd (underscore_createAccountBatch goodConnection (PublicKey 2000) sampleWallet sampleCosts
          (getFeePayers 2) (map sampleEntropy [0..<2]) (Num 63) initialWorld))) = 1"
proof -
  have len: "length (map sampleEntropy [0..<2]) = length (getFeePayers 2)"
    by (simp add: getFeePayers_def)
  have deaf: "\<And>n tx signers opt. isl (confirmTransaction deafConnection n tx signers opt)"
    by (simp add: deafConnection_def)
  have good: "\<And>n tx signers opt. \<not> isl (confirmTransaction goodConnection n tx signers opt)"
    by (simp add: goodConnection_def)
  have w0: "attempts (events initialWorld) = 0" "sleeps (events initialWorld) = 0"
    by (simp_all add: initialWorld_def)
  note d = createAccountBatch_retry_bound [OF len refl refl refl, of deafConnection "PublicKey 2000"
      sampleWallet sampleCosts "Num 63" initialWorld]
  note g = createAccountBatch_retry_bound [OF len refl refl refl, of goodConnection "PublicKey 2000"
      sampleWallet sampleCosts "Num 63" initialWorld]
  from d have 1: "fst (underscore_createAccountBatch deafConnection (PublicKey 2000) sampleWallet sampleCosts
          (getFeePayers 2) (map sampleEntropy [0..<2]) (Num 63) initialWorld)
     = Inl CouldntConfirmTransaction
   \<and> attempts (events (snd (underscore_createAccountBatch deafConnection (PublicKey 2000) sampleWallet sampleCosts
          (getFeePayers 2) (map sampleEntropy [0..<2]) (Num 63) initialWorld))) = 3
   \<and> sleeps (events (snd (underscore_createAccountBatch deafConnection (PublicKey 2000) sampleWallet sampleCosts
          (getFeePayers 2) (map sampleEntropy [0..<2]) (Num 63) initialWorld))) = 0"
    by (simp only: deaf w0 simp_thms add_0)
  from g have 2: "fst (underscore_createAccountBatch goodConnection (PublicKey 2000) sampleWallet sampleCosts
          (getFeePayers 2) (map sampleEntropy [0..<2]) (Num 63) initialWorld)
     = Inr ()
   \<and> attempts (events (snd (underscore_createAccountBatch goodConnection (PublicKey 2000) sampleWallet sampleCosts
          (getFeePayers 2) (map sampleEntropy [0..<2]) (Num 63) initialWorld))) = 1"
    by (simp only: good w0 simp_thms add_0)
  from 1 2 show ?thesis by blast
qed

section \<open>Doubles\<close>

lemma bitLength_le: "bitLength n \<le> k \<longleftrightarrow> n < 2 ^ k"
proof (induction k arbitrary: n)
  case 0
  show ?case by (subst bitLength.simps) simp
next
  case (Suc k)
  show ?case
  proof (cases "n = 0")
    case True
    then show ?thesis by (subst bitLength.simps) simp
  next
    case False
    have "n div 2 < 2 ^ k \<longleftrightarrow> n < 2 ^ Suc k"
      by (simp add: div_less_iff_less_mult mult.commute)
    with False Suc.IH [of "n div 2"] show ?thesis
      by (subst bitLength.simps) simp
  qed
qed

lemma roundDouble_exact: "n < 2 ^ 53 \<Longrightarrow> roundDouble n = Num n"
  by (simp add: roundDouble_def bitLength_le)

section \<open>The cost of a pool\<close>

lemma programSpace_of_four:
  "calculateProgrampace 4 = Num 32"
  by code_simp

lemma programSpace_of_two: "calculateProgrampace 2 = Num 63"
  by code_simp

lemma txPerAccount_of_four:
  "calculateTransactionsPerAccount (calculateProgrampace 4) = Num 256"
  by code_simp

lemma storageUnits_le:
  assumes "1 \<le> P"
  shows "nat \<lceil>1000 / rat_of_nat P / 8\<rceil> \<le> 125"
proof -
  have "1 \<le> rat_of_nat P" using assms by simp
  then have "1000 / rat_of_nat P / 8 \<le> 125"
    by (simp add: field_simps)
  then have "\<lceil>1000 / rat_of_nat P / 8\<rceil> \<le> 125"
    by (simp add: ceiling_le_iff)
  then show ?thesis by linarith
qed

text \<open>
  Claim C1, as the code has it. For a parallelization \<open>P\<close> of at least one,
  \<open>calculateCosts\<close> asks for the rent of \<open>storageUnits = ceil(1000 / P / 8)\<close> bytes, the
  rent of no bytes and the fee of a signature, in this order. When the three requests
  are answered it returns the costs with \<open>programAccountCost\<close> the rent of the space,
  \<open>feeAccountCost\<close> the fees of \<open>txPerAccount = 8 * storageUnits\<close> signatures plus the
  rent of no bytes, and \<open>total\<close> \<open>P\<close> times their sum, every product and sum rounded
  to the nearest double. Where the exact total is below \<open>2^53\<close> nothing is rounded and
  the costs are the exact integers. For \<open>P = 4\<close> the space is 32 bytes and a fee payer
  covers 256 transactions.
\<close>

theorem calculateCosts_formula:
  assumes "1 \<le> P"
    and "storageUnits = nat \<lceil>1000 / rat_of_nat P / 8\<rceil>"
    and "txPerAccount = 8 * storageUnits"
    and "getMinimumBalanceForRentExemption c (requests w) (Num storageUnits) = Inr rentOfSpace"
    and "getMinimumBalanceForRentExemption c (requests w + 1) (Num 0) = Inr rentOfNothing"
    and "getRecentBlockhash c (requests w + 2) = Inr signatureFee"
  shows "calculateProgrampace P = Num storageUnits
       \<and> calculateTransactionsPerAccount (calculateProgrampace P) = Num txPerAccount
       \<and> (\<exists>r. fst (calculateCosts c P w) = Inr r
            \<and> programAccountCost r = Num rentOfSpace
            \<and> feeAccountCost r =
                plus_number (roundDouble (txPerAccount * signatureFee)) (Num rentOfNothing)
            \<and> total_lamports r =
                times_number (Num P) (plus_number (Num rentOfSpace) (feeAccountCost r))
            \<and> (P * (rentOfSpace + (txPerAccount * signatureFee + rentOfNothing)) < 2 ^ 53 \<longrightarrow>
                  feeAccountCost r = Num (txPerAccount * signatureFee + rentOfNothing)
                \<and> total_lamports r =
                    Num (P * (rentOfSpace + (txPerAccount * signatureFee + rentOfNothing)))))
       \<and> calculateProgrampace 4 = Num 32
       \<and> calculateTransactionsPerAccount (calculateProgrampace 4) = Num 256"
proof -
  let ?fee = "plus_number (roundDouble (txPerAccount * signatureFee)) (Num rentOfNothing)"
  let ?total = "times_number (Num P) (plus_number (Num rentOfSpace) ?fee)"
  have sp: "calculateProgrampace P = Num storageUnits"
    using assms(1,2) by (simp add: calculateProgrampace_def TX_PER_BYTE_def)
  have "storageUnits \<le> 125" using assms(2) storageUnits_le [OF assms(1)] by simp
  then have "txPerAccount \<le> 1000" using assms(3) by simp
  then have small: "txPerAccount < 2 ^ 53" by simp
  have tx': "calculateTransactionsPerAccount (Num storageUnits) = Num txPerAccount"
    using assms(3) small by (simp add: calculateTransactionsPerAccount_def TX_PER_BYTE_def roundDouble_exact)
  then have tx: "calculateTransactionsPerAccount (calculateProgrampace P) = Num txPerAccount"
    by (simp add: sp)
  have res: "fst (calculateCosts c P w) =
          Inr \<lparr>total_lamports = ?total, feeAccountCost = ?fee, programAccountCost = Num rentOfSpace\<rparr>"
    using assms(4,5,6) by (simp add: calculateCosts_def rpc_def sp tx' Let_def)
  have exact: "?fee = Num (txPerAccount * signatureFee + rentOfNothing)
             \<and> ?total = Num (P * (rentOfSpace + (txPerAccount * signatureFee + rentOfNothing)))"
    if b: "P * (rentOfSpace + (txPerAccount * signatureFee + rentOfNothing)) < 2 ^ 53"
  proof -
    let ?f = "txPerAccount * signatureFee + rentOfNothing"
    have "rentOfSpace + ?f \<le> P * (rentOfSpace + ?f)"
      using assms(1) by (cases P) simp_all
    from this b have s: "rentOfSpace + ?f < 2 ^ 53" by (rule le_less_trans)
    have "?f \<le> rentOfSpace + ?f" by (rule le_add2)
    from this s have f: "?f < 2 ^ 53" by (rule le_less_trans)
    have "txPerAccount * signatureFee \<le> ?f" by (rule le_add1)
    from this f have m: "txPerAccount * signatureFee < 2 ^ 53" by (rule le_less_trans)
    have 1: "?fee = Num ?f"
      by (simp only: roundDouble_exact [OF m] plus_number.simps roundDouble_exact [OF f])
    have 2: "plus_number (Num rentOfSpace) (Num ?f) = Num (rentOfSpace + ?f)"
      by (simp only: plus_number.simps roundDouble_exact [OF s])
    have 3: "times_number (Num P) (Num (rentOfSpace + ?f)) = Num (P * (rentOfSpace + ?f))"
      by (simp only: times_number.simps roundDouble_exact [OF b])
    from 1 2 3 show ?thesis by (simp only: simp_thms)
  qed
  define r where "r = \<lparr>total_lamports = ?total, feeAccountCost = ?fee,
                          programAccountCost = Num rentOfSpace\<rparr>"
  have r1: "fst (calculateCosts c P w) = Inr r" using res by (simp only: r_def)
  have r2: "programAccountCost r = Num rentOfSpace" by (simp add: r_def)
  have r3: "feeAccountCost r = ?fee" by (simp add: r_def)
  have r4': "total_lamports r = ?total" by (simp add: r_def)
  have r4: "total_lamports r =
              times_number (Num P) (plus_number (Num rentOfSpace) (feeAccountCost r))"
    by (simp only: r3 r4')
  have r5: "P * (rentOfSpace + (txPerAccount * signatureFee + rentOfNothing)) < 2 ^ 53 \<longrightarrow>
                  feeAccountCost r = Num (txPerAccount * signatureFee + rentOfNothing)
                \<and> total_lamports r =
                    Num (P * (rentOfSpace + (txPerAccount * signatureFee + rentOfNothing)))"
  proof
    assume b: "P * (rentOfSpace + (txPerAccount * signatureFee + rentOfNothing)) < 2 ^ 53"
    show "feeAccountCost r = Num (txPerAccount * signatureFee + rentOfNothing)
                \<and> total_lamports r =
                    Num (P * (rentOfSpace + (txPerAccount * signatureFee + rentOfNothing)))"
      unfolding r3 r4' by (rule exact [OF b])
  qed
  have ex: "\<exists>r. fst (calculateCosts c P w) = Inr r
            \<and> programAccountCost r = Num rentOfSpace
            \<and> feeAccountCost r = ?fee
            \<and> total_lamports r =
                times_number (Num P) (plus_number (Num rentOfSpace) (feeAccountCost r))
            \<and> (P * (rentOfSpace + (txPerAccount * signatureFee + rentOfNothing)) < 2 ^ 53 \<longrightarrow>
                  feeAccountCost r = Num (txPerAccount * signatureFee + rentOfNothing)
                \<and> total_lamports r =
                    Num (P * (rentOfSpace + (txPerAccount * signatureFee + rentOfNothing))))"
    using r1 r2 r3 r4 r5 by (intro exI [of _ r] conjI)
  show ?thesis
    using sp tx ex programSpace_of_four txPerAccount_of_four by (intro conjI)
qed


theorem calculateCosts_formula_witness:
  "calculateProgrampace 4 = Num 32
   \<and> calculateTransactionsPerAccount (calculateProgrampace 4) = Num 256
   \<and> (\<exists>r. fst (calculateCosts goodConnection 4 initialWorld) = Inr r
        \<and> programAccountCost r = Num 132
        \<and> feeAccountCost r = Num 1380
        \<and> total_lamports r = Num 6048)"
proof -
  have su: "(32::nat) = nat \<lceil>1000 / rat_of_nat 4 / 8\<rceil>"
    by code_simp
  have a: "getMinimumBalanceForRentExemption goodConnection (requests initialWorld) (Num 32) = Inr 132"
    by (simp add: goodConnection_def)
  have b: "getMinimumBalanceForRentExemption goodConnection (requests initialWorld + 1) (Num 0) = Inr 100"
    by (simp add: goodConnection_def)
  have f: "getRecentBlockhash goodConnection (requests initialWorld + 2) = Inr 5"
    by (simp add: goodConnection_def)
  have p: "(1::nat) \<le> 4" by simp
  have t: "(256::nat) = 8 * 32" by simp
  have n: "(256 * 5 + 100 :: nat) = 1380" "(4 * (132 + 1380) :: nat) = 6048"
    by simp_all
  have bound: "(6048::nat) < 2 ^ 53" by simp
  from calculateCosts_formula [OF p su t a b f, unfolded n]
  obtain r where r: "fst (calculateCosts goodConnection 4 initialWorld) = Inr r"
      "programAccountCost r = Num 132"
      "6048 < (2::nat) ^ 53 \<longrightarrow> feeAccountCost r = Num 1380 \<and> total_lamports r = Num 6048"
    by blast
  from r(3) bound have "feeAccountCost r = Num 1380" "total_lamports r = Num 6048"
    by blast+
  with r(1,2) have "\<exists>r. fst (calculateCosts goodConnection 4 initialWorld) = Inr r
        \<and> programAccountCost r = Num 132
        \<and> feeAccountCost r = Num 1380
        \<and> total_lamports r = Num 6048"
    by blast
  with programSpace_of_four txPerAccount_of_four show ?thesis by (intro conjI)
qed

lemma programSpace_of_one: "calculateProgrampace 1 = Num 125"
  by code_simp

lemma roundDouble_tie: "roundDouble 9007199254740993 = Num 9007199254740992"
proof -
  let ?n = "9007199254740993 :: nat"
  have "\<not> bitLength ?n \<le> 53" "bitLength ?n \<le> 54"
    by (simp_all add: bitLength_le)
  then have b: "bitLength ?n = 54" by linarith
  show ?thesis
    by (simp add: roundDouble_def b Let_def)
qed

lemma roundDouble_power: "roundDouble 9007199254740992 = Num 9007199254740992"
proof -
  let ?n = "9007199254740992 :: nat"
  have "\<not> bitLength ?n \<le> 53" "bitLength ?n \<le> 54"
    by (simp_all add: bitLength_le)
  then have b: "bitLength ?n = 54" by linarith
  show ?thesis
    by (simp add: roundDouble_def b Let_def)
qed

text \<open>
  Claim C1 as stated fails where a sum leaves the exact integers of a double: with a
  rent of \<open>2^53\<close> for the space, a rent of one for no bytes and no fee, the total for
  one account is \<open>2^53\<close>, not \<open>2^53 + 1\<close>.
\<close>

theorem total_is_rounded:
  "fst (calculateCosts richConnection 1 initialWorld) =
     Inr \<lparr>total_lamports = Num 9007199254740992, feeAccountCost = Num 1,
          programAccountCost = Num 9007199254740992\<rparr>
   \<and> (1 * (9007199254740992 + (8 * 125 * 0 + 1)) :: nat) = 9007199254740993
   \<and> Num 9007199254740992 \<noteq> Num (1 * (9007199254740992 + (8 * 125 * 0 + 1)))"
proof -
  have s: "calculateProgrampace (Suc 0) = Num 125"
    using programSpace_of_one by simp
  have "fst (calculateCosts richConnection 1 initialWorld) =
     Inr \<lparr>total_lamports = Num 9007199254740992, feeAccountCost = Num 1,
          programAccountCost = Num 9007199254740992\<rparr>"
    by (simp add: calculateCosts_def rpc_def Let_def s richConnection_def
        goodConnection_def initialWorld_def calculateTransactionsPerAccount_def TX_PER_BYTE_def
        roundDouble_exact roundDouble_tie roundDouble_power)
  then show ?thesis by simp
qed

section \<open>The background cost computation\<close>

lemma calculateCosts_events: "events (snd (calculateCosts c P w)) = events w"
  by (simp add: calculateCosts_def rpc_def Let_def split: sum.splits prod.splits)

lemma calculateCosts_good_four:
  "calculateCosts goodConnection 4 initialWorld =
     (Inr \<lparr>total_lamports = Num 6048, feeAccountCost = Num 1380, programAccountCost = Num 132\<rparr>,
      \<lparr>requests = 3, generated = 0, events = []\<rparr>)"
  by (simp add: calculateCosts_def rpc_def Let_def programSpace_of_four goodConnection_def
      initialWorld_def calculateTransactionsPerAccount_def TX_PER_BYTE_def roundDouble_exact)

text \<open>
  Claim C8. When \<open>calculateCosts\<close> resolves and the generation is still the one the loop
  saved, the loop stores the costs, returns, and moves the status from \<open>initializing\<close> to
  \<open>inactive\<close>; any other status it meets is left as it is.
\<close>

theorem first_success_leaves_initializing:
  assumes "calculateCosts c P w = (Inr accountCosts, w1)"
    and "calculationCounter s = savedCounter"
  shows "costRound savedCounter c P s w =
           (True,
            s\<lparr>costs := Some accountCosts,
              status := (if status s = initializing then inactive else status s)\<rparr>,
            w1)"
  using assms by (simp add: costRound_def)

theorem first_success_leaves_initializing_witness:
  "costRound 1 goodConnection 4 (initialProvider\<lparr>calculationCounter := 1\<rparr>) initialWorld =
     (True,
      \<lparr>costs = Some \<lparr>total_lamports = Num 6048, feeAccountCost = Num 1380,
                     programAccountCost = Num 132\<rparr>,
       status = inactive, accounts = None, creationLock = False, calculationCounter = 1\<rparr>,
      \<lparr>requests = 3, generated = 0, events = []\<rparr>)
   \<and> costRound 1 goodConnection 4 (initialProvider\<lparr>calculationCounter := 1, status := creating\<rparr>) initialWorld =
     (True,
      \<lparr>costs = Some \<lparr>total_lamports = Num 6048, feeAccountCost = Num 1380,
                     programAccountCost = Num 132\<rparr>,
       status = creating, accounts = None, creationLock = False, calculationCounter = 1\<rparr>,
      \<lparr>requests = 3, generated = 0, events = []\<rparr>)"
proof -
  have c1: "calculationCounter (initialProvider\<lparr>calculationCounter := 1\<rparr>) = 1"
    by simp
  have c2: "calculationCounter (initialProvider\<lparr>calculationCounter := 1, status := creating\<rparr>) = 1"
    by simp
  note a = first_success_leaves_initializing [OF calculateCosts_good_four c1]
  note b = first_success_leaves_initializing [OF calculateCosts_good_four c2]
  show ?thesis
    using a b by (simp add: initialProvider_def)
qed

section \<open>Generations\<close>

lemma costRound_counter:
  "calculationCounter (fst (snd (costRound savedCounter c P s w))) = calculationCounter s"
  by (simp add: costRound_def split: prod.splits sum.splits)

lemma create_end_counter:
  "calculationCounter (fst (snd (create_end r s w))) = calculationCounter s"
  by (simp add: create_end_def split: sum.splits)

lemma close_end_counter:
  "calculationCounter (fst (snd (close_end r s w))) = calculationCounter s"
  by (simp add: close_end_def)

lemma finish_counter:
  "calculationCounter (fst (snd (finish feePayersOf rng t s w))) = calculationCounter s"
  by (cases t) (simp_all add: case_prod_beta create_end_counter close_end_counter)

lemma create_begin_counter:
  "calculationCounter (fst (snd (create_begin e s w))) = calculationCounter s"
  by (simp add: create_begin_def split: option.splits)

lemma close_begin_counter:
  "calculationCounter (fst (snd (close_begin e s w))) = calculationCounter s"
  by (simp add: close_begin_def split: option.splits)

lemma effect_counter:
  "calculationCounter (fst (effect e s)) = Suc (calculationCounter s)"
  by (simp add: effect_def Let_def split: option.splits)

lemma prov_step_effect:
  "prov (step feePayersOf rng sys (RunEffect e)) = fst (effect e (prov sys))"
  by (simp add: case_prod_beta)

lemma step_counter:
  "calculationCounter (prov sys) \<le> calculationCounter (prov (step feePayersOf rng sys a))"
proof (cases a)
  case (RunEffect e)
  then show ?thesis
    using effect_counter [of e "prov sys"] by (simp only: prov_step_effect)
next
  case (Advance k)
  show ?thesis
  proof (cases "k < length (pending sys)")
    case True
    then show ?thesis
      using Advance
      by (cases "pending sys ! k")
         (simp_all add: case_prod_beta costRound_counter create_end_counter close_end_counter)
  next
    case False
    then show ?thesis using Advance by simp
  qed
next
  case Deactivate
  then show ?thesis by (simp add: deactivate_def)
next
  case (CallCreate e)
  then show ?thesis
    by (simp add: case_prod_beta create_begin_counter)
next
  case (CallClose e)
  then show ?thesis
    by (simp add: case_prod_beta close_begin_counter)
qed

lemma run_counter:
  "calculationCounter (prov sys) \<le> calculationCounter (prov (run feePayersOf rng sys as))"
proof (induction as arbitrary: sys)
  case Nil
  then show ?case by (simp add: run_def)
next
  case (Cons a as)
  have "calculationCounter (prov sys) \<le> calculationCounter (prov (step feePayersOf rng sys a))"
    by (rule step_counter)
  also have "\<dots> \<le> calculationCounter (prov (run feePayersOf rng (step feePayersOf rng sys a) as))"
    by (rule Cons.IH)
  finally show ?case by (simp add: run_def)
qed

lemma run_append: "run feePayersOf rng sys (as @ bs) = run feePayersOf rng (run feePayersOf rng sys as) bs"
  by (simp add: run_def)

lemma run_Cons: "run feePayersOf rng sys (a # as) = run feePayersOf rng (step feePayersOf rng sys a) as"
  by (simp add: run_def)

lemma counter_after_effect:
  "calculationCounter (prov sys) < calculationCounter (prov (run feePayersOf rng sys (before @ RunEffect e # after)))"
proof -
  let ?m = "run feePayersOf rng sys before"
  have "calculationCounter (prov sys) \<le> calculationCounter (prov ?m)"
    by (rule run_counter)
  also have "\<dots> < calculationCounter (prov (step feePayersOf rng ?m (RunEffect e)))"
    using effect_counter [of e "prov ?m"] by (simp only: prov_step_effect)
  also have "\<dots> \<le> calculationCounter (prov (run feePayersOf rng (step feePayersOf rng ?m (RunEffect e)) after))"
    by (rule run_counter)
  finally show ?thesis by (simp add: run_append run_Cons)
qed

text \<open>
  Claim C6. A run of the effect starts a computation for its generation. Once the effect
  has run again (whatever else the provider did before and after), the old computation,
  when its \<open>calculateCosts\<close> resolves, returns from its loop and leaves the whole state
  of the provider as it is, costs and status included, and logs nothing.
\<close>

theorem stale_costs_are_dropped:
  assumes "connection e = Some c"
    and "started = step feePayersOf rng sys0 (RunEffect e)"
    and "later = run feePayersOf rng started (before @ RunEffect e' # after)"
    and "calculateCosts c (parallelization e) (outside later) = (Inr accountCosts, w1)"
  shows "pending started = pending sys0 @ [CostTask (calculationCounter (prov started)) c (parallelization e)]
       \<and> costRound (calculationCounter (prov started)) c (parallelization e) (prov later) (outside later)
           = (True, prov later, w1)
       \<and> events w1 = events (outside later)"
proof -
  have p: "pending started = pending sys0 @ [CostTask (calculationCounter (prov started)) c (parallelization e)]"
    using assms(1,2) by (simp add: effect_def Let_def spawn_def)
  have "calculationCounter (prov started) < calculationCounter (prov later)"
    unfolding assms(3) by (rule counter_after_effect)
  then have r: "costRound (calculationCounter (prov started)) c (parallelization e) (prov later) (outside later)
           = (True, prov later, w1)"
    using assms(4) by (simp add: costRound_def)
  have "events w1 = events (outside later)"
    using calculateCosts_events [of c "parallelization e" "outside later"] assms(4) by simp
  with p r show ?thesis by blast
qed

lemma stale_run_example:
  "run getFeePayers sampleEntropy (step getFeePayers sampleEntropy initialSystem (RunEffect sampleEnv))
      ([] @ RunEffect (sampleEnv\<lparr>parallelization := 4\<rparr>) # [Advance 1]) =
   \<lparr>prov = \<lparr>costs = Some \<lparr>total_lamports = Num 6048, feeAccountCost = Num 1380,
                            programAccountCost = Num 132\<rparr>,
            status = inactive, accounts = None, creationLock = False, calculationCounter = 2\<rparr>,
    outside = \<lparr>requests = 3, generated = 0, events = []\<rparr>,
    pending = [CostTask 1 goodConnection 2]\<rparr>"
  by (simp add: run_def initialSystem_def initialProvider_def initialWorld_def sampleEnv_def
      effect_def spawn_def dropTask_def costRound_def calculateCosts_def rpc_def
      programSpace_of_four calculateTransactionsPerAccount_def TX_PER_BYTE_def goodConnection_def
      Let_def roundDouble_exact)

lemma stale_costs_example:
  "calculateCosts goodConnection 2 \<lparr>requests = 3, generated = 0, events = []\<rparr> =
     (Inr \<lparr>total_lamports = Num 5566, feeAccountCost = Num 2620, programAccountCost = Num 163\<rparr>,
      \<lparr>requests = 6, generated = 0, events = []\<rparr>)"
  by (simp add: calculateCosts_def rpc_def Let_def programSpace_of_two goodConnection_def
      calculateTransactionsPerAccount_def TX_PER_BYTE_def roundDouble_exact)

theorem stale_costs_are_dropped_witness:
  "costRound 1 goodConnection 2
      \<lparr>costs = Some \<lparr>total_lamports = Num 6048, feeAccountCost = Num 1380,
                     programAccountCost = Num 132\<rparr>,
       status = inactive, accounts = None, creationLock = False, calculationCounter = 2\<rparr>
      \<lparr>requests = 3, generated = 0, events = []\<rparr> =
     (True,
      \<lparr>costs = Some \<lparr>total_lamports = Num 6048, feeAccountCost = Num 1380,
                     programAccountCost = Num 132\<rparr>,
       status = inactive, accounts = None, creationLock = False, calculationCounter = 2\<rparr>,
      \<lparr>requests = 6, generated = 0, events = []\<rparr>)"
proof -
  let ?started = "step getFeePayers sampleEntropy initialSystem (RunEffect sampleEnv)"
  let ?later = "run getFeePayers sampleEntropy ?started
      ([] @ RunEffect (sampleEnv\<lparr>parallelization := 4\<rparr>) # [Advance 1])"
  have c: "connection sampleEnv = Some goodConnection" by (simp add: sampleEnv_def)
  have p: "parallelization sampleEnv = 2" by (simp add: sampleEnv_def)
  have n: "calculationCounter (prov ?started) = 1"
    by (simp add: initialSystem_def initialProvider_def effect_def sampleEnv_def Let_def)
  have o: "outside ?later = \<lparr>requests = 3, generated = 0, events = []\<rparr>"
    by (simp only: stale_run_example system.simps)
  have q: "prov ?later = \<lparr>costs = Some \<lparr>total_lamports = Num 6048, feeAccountCost = Num 1380,
                     programAccountCost = Num 132\<rparr>,
       status = inactive, accounts = None, creationLock = False, calculationCounter = 2\<rparr>"
    by (simp only: stale_run_example system.simps)
  have k: "calculateCosts goodConnection (parallelization sampleEnv) (outside ?later) =
     (Inr \<lparr>total_lamports = Num 5566, feeAccountCost = Num 2620, programAccountCost = Num 163\<rparr>,
      \<lparr>requests = 6, generated = 0, events = []\<rparr>)"
    by (simp only: p o stale_costs_example)
  from stale_costs_are_dropped [OF c refl refl k]
  show ?thesis by (simp only: n p o q)
qed

section \<open>The lock and the operations in flight\<close>

lemma filter_dropTask:
  assumes "k < length ts"
  shows "length (filter isOperation (dropTask k ts)) =
           length (filter isOperation ts) - (if isOperation (ts ! k) then 1 else 0)"
proof -
  have "ts = take k ts @ ts ! k # drop (Suc k) ts"
    using assms by (rule id_take_nth_drop)
  then have "filter isOperation ts =
      filter isOperation (take k ts) @ filter isOperation [ts ! k] @ filter isOperation (drop (Suc k) ts)"
    by (metis append_Cons append_Nil filter_append)
  then show ?thesis
    by (simp add: dropTask_def)
qed

lemma create_begin_lock:
  "create_begin e s w = (r, s1, w1) \<Longrightarrow>
     (case r of
        Inr (Some t) \<Rightarrow> \<not> creationLock s \<and> creationLock s1 \<and> isOperation t
      | _ \<Rightarrow> s1 = s)"
  by (auto simp: create_begin_def split: option.splits if_splits)

lemma close_begin_lock:
  "close_begin e s w = (r, s1, w1) \<Longrightarrow>
     (case r of
        Inr (Some t) \<Rightarrow> \<not> creationLock s \<and> creationLock s1 \<and> isOperation t
      | _ \<Rightarrow> s1 = s)"
  by (auto simp: close_begin_def split: option.splits if_splits)

lemma costRound_lock:
  "creationLock (fst (snd (costRound savedCounter c P s w))) = creationLock s"
  by (simp add: costRound_def split: prod.splits sum.splits)

lemma create_end_lock: "\<not> creationLock (fst (snd (create_end r s w)))"
  by (simp add: create_end_def split: sum.splits)

lemma close_end_lock: "\<not> creationLock (fst (snd (close_end r s w)))"
  by (simp add: close_end_def)

lemma effect_lock: "creationLock (fst (effect e s)) = creationLock s"
  by (simp add: effect_def Let_def split: option.splits)

lemma effect_task: "snd (effect e s) = Some t \<Longrightarrow> \<not> isOperation t"
  by (auto simp: effect_def Let_def split: option.splits)

lemma filter_spawn:
  "length (filter isOperation (spawn t ts)) =
     length (filter isOperation ts) + (case t of Some t' \<Rightarrow> if isOperation t' then 1 else 0 | None \<Rightarrow> 0)"
  by (simp add: spawn_def split: option.splits)

lemma step_gate:
  assumes "length (inFlight sys) = (if creationLock (prov sys) then 1 else 0)"
  shows "length (inFlight (step feePayersOf rng sys a)) =
           (if creationLock (prov (step feePayersOf rng sys a)) then 1 else 0)"
proof (cases a)
  case (RunEffect e)
  obtain s1 t where ef: "effect e (prov sys) = (s1, t)" by (cases "effect e (prov sys)")
  from ef effect_lock [of e "prov sys"] have l: "creationLock s1 = creationLock (prov sys)" by simp
  from ef effect_task [of e "prov sys"] have "\<And>t'. t = Some t' \<Longrightarrow> \<not> isOperation t'" by simp
  then have "length (filter isOperation (spawn t (pending sys))) = length (filter isOperation (pending sys))"
    by (cases t) (simp_all add: filter_spawn)
  then show ?thesis using assms RunEffect ef l by (simp add: inFlight_def)
next
  case (Advance k)
  show ?thesis
  proof (cases "k < length (pending sys)")
    case False
    then show ?thesis using assms Advance by simp
  next
    case True
    note fd = filter_dropTask [OF True]
    show ?thesis
    proof (cases "pending sys ! k")
      case (CostTask savedCounter c P)
      obtain b s1 w1 where cr: "costRound savedCounter c P (prov sys) (outside sys) = (b, s1, w1)"
        by (cases "costRound savedCounter c P (prov sys) (outside sys)")
      from cr costRound_lock [of savedCounter c P "prov sys" "outside sys"]
      have "creationLock s1 = creationLock (prov sys)" by simp
      then show ?thesis using assms Advance True CostTask cr fd by (auto simp: inFlight_def split: if_splits)
    next
      case (CreateTask c pid payer cs P)
      then have op: "isOperation (pending sys ! k)" by simp
      then have "pending sys ! k \<in> set (filter isOperation (pending sys))"
        using True by simp
      then have pos: "0 < length (inFlight sys)" unfolding inFlight_def by (metis length_pos_if_in_set)
      with assms have one: "length (inFlight sys) = 1" by (simp split: if_splits)
      obtain r w1 where uc: "underscore_create feePayersOf rng c pid payer cs P (outside sys) = (r, w1)"
        by (cases "underscore_create feePayersOf rng c pid payer cs P (outside sys)")
      obtain r' s2 w2 where ce: "create_end r (prov sys) w1 = (r', s2, w2)"
        by (cases "create_end r (prov sys) w1")
      from ce create_end_lock [of r "prov sys" w1] have "\<not> creationLock s2" by simp
      then show ?thesis using Advance True CreateTask uc ce fd op one by (simp add: inFlight_def)
    next
      case (CloseTask c payer P)
      then have op: "isOperation (pending sys ! k)" by simp
      then have "pending sys ! k \<in> set (filter isOperation (pending sys))"
        using True by simp
      then have pos: "0 < length (inFlight sys)" unfolding inFlight_def by (metis length_pos_if_in_set)
      with assms have one: "length (inFlight sys) = 1" by (simp split: if_splits)
      obtain r w1 where uc: "underscore_close feePayersOf c payer P (outside sys) = (r, w1)"
        by (cases "underscore_close feePayersOf c payer P (outside sys)")
      obtain r' s2 w2 where ce: "close_end r (prov sys) w1 = (r', s2, w2)"
        by (cases "close_end r (prov sys) w1")
      from ce close_end_lock [of r "prov sys" w1] have "\<not> creationLock s2" by simp
      then show ?thesis using Advance True CloseTask uc ce fd op one by (simp add: inFlight_def)
    qed
  qed
next
  case Deactivate
  then show ?thesis using assms by (simp add: deactivate_def inFlight_def)
next
  case (CallCreate e)
  obtain r s1 w1 where cb: "create_begin e (prov sys) (outside sys) = (r, s1, w1)"
    by (cases "create_begin e (prov sys) (outside sys)")
  note l = create_begin_lock [OF cb]
  show ?thesis
  proof (cases r)
    case (Inl err)
    then show ?thesis using assms CallCreate cb l by (simp add: inFlight_def spawn_def)
  next
    case (Inr t)
    then show ?thesis using assms CallCreate cb l
      by (cases t) (simp_all add: inFlight_def spawn_def)
  qed
next
  case (CallClose e)
  obtain r s1 w1 where cb: "close_begin e (prov sys) (outside sys) = (r, s1, w1)"
    by (cases "close_begin e (prov sys) (outside sys)")
  note l = close_begin_lock [OF cb]
  show ?thesis
  proof (cases r)
    case (Inl err)
    then show ?thesis using assms CallClose cb l by (simp add: inFlight_def spawn_def)
  next
    case (Inr t)
    then show ?thesis using assms CallClose cb l
      by (cases t) (simp_all add: inFlight_def spawn_def)
  qed
qed

lemma run_gate:
  assumes "length (inFlight sys) = (if creationLock (prov sys) then 1 else 0)"
  shows "length (inFlight (run feePayersOf rng sys as)) =
           (if creationLock (prov (run feePayersOf rng sys as)) then 1 else 0)"
  using assms
proof (induction as arbitrary: sys)
  case Nil
  then show ?case by (simp add: run_def)
next
  case (Cons a as)
  from Cons.IH [OF step_gate [OF Cons.prems]] show ?case by (simp add: run_Cons)
qed


section \<open>Closing, and operations that fail\<close>

lemma create_deaf_fails:
  "fst (underscore_create getFeePayers sampleEntropy deafConnection (PublicKey 2000) sampleWallet
          sampleCosts 2 initialWorld) = Inl CouldntConfirmTransaction"
  by code_simp

lemma close_deaf_fails:
  "fst (underscore_close getFeePayers deafConnection sampleWallet 2 initialWorld) = Inl (RpcError 2)"
  by code_simp

text \<open>
  Claim C7, as the code has it. With a connection, a wallet and the lock free, \<open>close\<close>
  takes the lock, sets the status to \<open>closing\<close> and runs \<open>_close\<close> exactly when the
  status its callback holds from its render is \<open>inactive\<close>; with any other status held
  it returns at once and changes nothing, in the provider or outside. The callback of the
  render of the current state holds the current status: called from a status other than
  \<open>inactive\<close> it does not start the teardown.
\<close>

theorem close_only_from_inactive:
  assumes "connection e = Some c" and "wallet e = Some payer" and "\<not> creationLock s"
  shows "(renderedStatus e = inactive \<longrightarrow>
            close_begin e s w =
              (Inr (Some (CloseTask c payer (parallelization e))),
               s\<lparr>creationLock := True, status := closing\<rparr>, w)
          \<and> close feePayersOf rng e s w =
              (fst (underscore_close feePayersOf c payer (parallelization e) w),
               s\<lparr>status := inactive, creationLock := False\<rparr>,
               snd (underscore_close feePayersOf c payer (parallelization e) w)))
       \<and> (renderedStatus e \<noteq> inactive \<longrightarrow>
            close_begin e s w = (Inr None, s, w)
          \<and> close feePayersOf rng e s w = (Inr (), s, w))
       \<and> renderedStatus (render s e) = status s
       \<and> (status s = inactive \<longrightarrow>
            close_begin (render s e) s w =
              (Inr (Some (CloseTask c payer (parallelization e))),
               s\<lparr>creationLock := True, status := closing\<rparr>, w))
       \<and> (status s \<noteq> inactive \<longrightarrow>
            close_begin (render s e) s w = (Inr None, s, w)
          \<and> close feePayersOf rng (render s e) s w = (Inr (), s, w))"
  using assms
  by (simp add: close_begin_def close_def close_end_def render_def case_prod_beta)

theorem close_only_from_inactive_witness:
  "close_begin sampleEnv idleProvider initialWorld =
     (Inr (Some (CloseTask goodConnection sampleWallet 2)),
      idleProvider\<lparr>creationLock := True, status := closing\<rparr>, initialWorld)
   \<and> close_begin (sampleEnv\<lparr>renderedStatus := active\<rparr>) (idleProvider\<lparr>status := active\<rparr>)
        initialWorld =
       (Inr None, idleProvider\<lparr>status := active\<rparr>, initialWorld)
   \<and> close getFeePayers sampleEntropy (render (idleProvider\<lparr>status := active\<rparr>) sampleEnv)
        (idleProvider\<lparr>status := active\<rparr>) initialWorld =
       (Inr (), idleProvider\<lparr>status := active\<rparr>, initialWorld)"
proof -
  let ?e = "sampleEnv\<lparr>renderedStatus := active\<rparr>"
  have c: "connection sampleEnv = Some goodConnection" "connection ?e = Some goodConnection"
    by (simp_all add: sampleEnv_def)
  have p: "wallet sampleEnv = Some sampleWallet" "wallet ?e = Some sampleWallet"
    by (simp_all add: sampleEnv_def)
  have n: "parallelization sampleEnv = 2" by (simp add: sampleEnv_def)
  have l1: "\<not> creationLock idleProvider" by (simp add: idleProvider_def initialProvider_def)
  have l2: "\<not> creationLock (idleProvider\<lparr>status := active\<rparr>)"
    by (simp add: idleProvider_def initialProvider_def)
  have s1: "renderedStatus sampleEnv = inactive" by (simp add: sampleEnv_def)
  have s2: "renderedStatus ?e \<noteq> inactive" by simp
  have s3: "status (idleProvider\<lparr>status := active\<rparr>) \<noteq> inactive" by simp
  from close_only_from_inactive [OF c(1) p(1) l1, of initialWorld] s1 n
  have a: "close_begin sampleEnv idleProvider initialWorld =
     (Inr (Some (CloseTask goodConnection sampleWallet 2)),
      idleProvider\<lparr>creationLock := True, status := closing\<rparr>, initialWorld)"
    by simp
  from close_only_from_inactive [OF c(2) p(2) l2, of initialWorld] s2
  have b: "close_begin ?e (idleProvider\<lparr>status := active\<rparr>) initialWorld =
       (Inr None, idleProvider\<lparr>status := active\<rparr>, initialWorld)"
    by blast
  from close_only_from_inactive [OF c(1) p(1) l2, of initialWorld getFeePayers sampleEntropy] s3
  have d: "close getFeePayers sampleEntropy (render (idleProvider\<lparr>status := active\<rparr>) sampleEnv)
        (idleProvider\<lparr>status := active\<rparr>) initialWorld =
       (Inr (), idleProvider\<lparr>status := active\<rparr>, initialWorld)"
    by blast
  from a b d show ?thesis by (intro conjI)
qed

lemma sampleEnv_rendered: "render idleProvider sampleEnv = sampleEnv"
  by (simp add: render_def sampleEnv_def idleProvider_def)

lemma stale_close_run:
  "status (prov (run getFeePayers sampleEntropy idleSystem [CallCreate sampleEnv, Advance 0])) = active"
  "\<not> creationLock (prov (run getFeePayers sampleEntropy idleSystem [CallCreate sampleEnv, Advance 0]))"
  "length (pending (run getFeePayers sampleEntropy idleSystem [CallCreate sampleEnv, Advance 0])) = 0"
  by code_simp+

text \<open>
  Claim C7 as stated fails for a callback kept from an earlier render. The provider
  waits with its costs; \<open>create\<close> of this render is called and its run ends: the status
  is \<open>active\<close> and the lock is free. \<open>close\<close> of the same render, called now, still
  holds \<open>inactive\<close>: it takes the lock, sets \<open>closing\<close> and waits for \<open>_close\<close>.
\<close>

theorem stale_close_starts_teardown:
  "render idleProvider sampleEnv = sampleEnv
   \<and> status (prov (run getFeePayers sampleEntropy idleSystem [CallCreate sampleEnv, Advance 0])) = active
   \<and> creationLock (prov (run getFeePayers sampleEntropy idleSystem [CallCreate sampleEnv, Advance 0])) = False
   \<and> pending (run getFeePayers sampleEntropy idleSystem
                 [CallCreate sampleEnv, Advance 0, CallClose sampleEnv]) =
       [CloseTask goodConnection sampleWallet 2]
   \<and> status (prov (run getFeePayers sampleEntropy idleSystem
                 [CallCreate sampleEnv, Advance 0, CallClose sampleEnv])) = closing"
proof -
  let ?m = "run getFeePayers sampleEntropy idleSystem [CallCreate sampleEnv, Advance 0]"
  have r: "run getFeePayers sampleEntropy idleSystem [CallCreate sampleEnv, Advance 0, CallClose sampleEnv] =
           step getFeePayers sampleEntropy ?m (CallClose sampleEnv)"
    by (simp add: run_def)
  note m = stale_close_run
  from m(3) have p: "pending ?m = []" by simp
  have b: "close_begin sampleEnv (prov ?m) (outside ?m) =
             (Inr (Some (CloseTask goodConnection sampleWallet 2)),
              (prov ?m)\<lparr>creationLock := True, status := closing\<rparr>, outside ?m)"
    using m(2) by (simp add: close_begin_def sampleEnv_def)
  have 3: "pending (step getFeePayers sampleEntropy ?m (CallClose sampleEnv)) =
             [CloseTask goodConnection sampleWallet 2]"
    by (simp add: b p spawn_def)
  have 4: "status (prov (step getFeePayers sampleEntropy ?m (CallClose sampleEnv))) = closing"
    by (simp add: b)
  from m(2) have 2: "creationLock (prov ?m) = False" by simp
  from sampleEnv_rendered m(1) 2 3 4 show ?thesis unfolding r by (intro conjI)
qed

text \<open>
  Claim C5, as the code has it. An operation starts when the lock is free and the status
  its callback holds is \<open>inactive\<close>. When \<open>_create\<close> throws, \<open>create\<close> sets the accounts to
  undefined and the status to \<open>inactive\<close>, frees the lock, logs the error and resolves:
  the caller does not see the error. When \<open>_close\<close> throws, \<open>close\<close> sets the status
  to \<open>inactive\<close>, frees the lock, leaves the accounts as they are and rejects with the
  error. Neither runs its operation a second time. The last two conjuncts say the same
  of the end of an operation in whatever state it meets.
\<close>

theorem failed_operation_resets:
  "(connection e = Some c \<and> breakProgramId e = Some pid \<and> wallet e = Some payer
      \<and> renderedCosts e = Some cs \<and> \<not> creationLock s \<and> renderedStatus e = inactive
      \<and> fst (underscore_create feePayersOf rng c pid payer cs (parallelization e) w) = Inl err
    \<longrightarrow> create feePayersOf rng e s w =
          (Inr (),
           s\<lparr>accounts := None, status := inactive, creationLock := False\<rparr>,
           emit (ErrorFailedToCreate err)
             (snd (underscore_create feePayersOf rng c pid payer cs (parallelization e) w))))
   \<and> (connection e = Some c \<and> wallet e = Some payer \<and> \<not> creationLock s \<and> renderedStatus e = inactive
      \<and> fst (underscore_close feePayersOf c payer (parallelization e) w) = Inl err
    \<longrightarrow> close feePayersOf rng e s w =
          (Inl err,
           s\<lparr>status := inactive, creationLock := False\<rparr>,
           snd (underscore_close feePayersOf c payer (parallelization e) w)))
   \<and> create_end (Inl err) s' w' =
        (Inr (), s'\<lparr>accounts := None, status := inactive, creationLock := False\<rparr>,
         emit (ErrorFailedToCreate err) w')
   \<and> close_end (Inl err) s' w' =
        (Inl err, s'\<lparr>status := inactive, creationLock := False\<rparr>, w')"
  by (simp add: create_def create_begin_def create_end_def close_def close_begin_def close_end_def
      case_prod_beta)

theorem failed_operation_resets_witness:
  "create getFeePayers sampleEntropy (sampleEnv\<lparr>connection := Some deafConnection\<rparr>)
       idleProvider initialWorld =
     (Inr (),
      idleProvider\<lparr>accounts := None, status := inactive, creationLock := False\<rparr>,
      emit (ErrorFailedToCreate CouldntConfirmTransaction)
        (snd (underscore_create getFeePayers sampleEntropy deafConnection (PublicKey 2000)
                sampleWallet sampleCosts 2 initialWorld)))
   \<and> close getFeePayers sampleEntropy (sampleEnv\<lparr>connection := Some deafConnection\<rparr>)
       idleProvider initialWorld =
     (Inl (RpcError 2),
      idleProvider\<lparr>status := inactive, creationLock := False\<rparr>,
      snd (underscore_close getFeePayers deafConnection sampleWallet 2 initialWorld))"
proof -
  let ?e = "sampleEnv\<lparr>connection := Some deafConnection\<rparr>"
  have e: "connection ?e = Some deafConnection" "breakProgramId ?e = Some (PublicKey 2000)"
    "wallet ?e = Some sampleWallet" "parallelization ?e = 2"
    by (simp_all add: sampleEnv_def)
  have s: "renderedCosts ?e = Some sampleCosts" "\<not> creationLock idleProvider"
    "renderedStatus ?e = inactive"
    by (simp_all add: idleProvider_def initialProvider_def sampleEnv_def)
  note t = failed_operation_resets [where e = ?e and c = deafConnection and pid = "PublicKey 2000"
      and payer = sampleWallet and s = idleProvider and cs = sampleCosts
      and feePayersOf = getFeePayers and rng = sampleEntropy and w = initialWorld
      and err = CouldntConfirmTransaction]
  note u = failed_operation_resets [where e = ?e and c = deafConnection and pid = "PublicKey 2000"
      and payer = sampleWallet and s = idleProvider and cs = sampleCosts
      and feePayersOf = getFeePayers and rng = sampleEntropy and w = initialWorld
      and err = "RpcError 2"]
  from t e s create_deaf_fails
  have a: "create getFeePayers sampleEntropy ?e idleProvider initialWorld =
     (Inr (),
      idleProvider\<lparr>accounts := None, status := inactive, creationLock := False\<rparr>,
      emit (ErrorFailedToCreate CouldntConfirmTransaction)
        (snd (underscore_create getFeePayers sampleEntropy deafConnection (PublicKey 2000)
                sampleWallet sampleCosts 2 initialWorld)))"
    by (simp only: simp_thms)
  from u e s close_deaf_fails
  have b: "close getFeePayers sampleEntropy ?e idleProvider initialWorld =
     (Inl (RpcError 2),
      idleProvider\<lparr>status := inactive, creationLock := False\<rparr>,
      snd (underscore_close getFeePayers deafConnection sampleWallet 2 initialWorld))"
    by (simp only: simp_thms)
  from a b show ?thesis by (rule conjI)
qed

text \<open>
  Claim C5 as stated fails for \<open>create\<close>: on a connection that confirms nothing,
  \<open>_create\<close> throws, and the promise of the started \<open>create\<close> resolves.
\<close>

theorem failed_create_is_not_surfaced:
  "fst (underscore_create getFeePayers sampleEntropy deafConnection (PublicKey 2000) sampleWallet
          sampleCosts 2 initialWorld) = Inl CouldntConfirmTransaction
   \<and> fst (create_begin (sampleEnv\<lparr>connection := Some deafConnection\<rparr>) idleProvider initialWorld) =
       Inr (Some (CreateTask deafConnection (PublicKey 2000) sampleWallet sampleCosts 2))
   \<and> fst (create getFeePayers sampleEntropy (sampleEnv\<lparr>connection := Some deafConnection\<rparr>)
            idleProvider initialWorld) = Inr ()"
proof -
  have b: "fst (create_begin (sampleEnv\<lparr>connection := Some deafConnection\<rparr>) idleProvider initialWorld) =
       Inr (Some (CreateTask deafConnection (PublicKey 2000) sampleWallet sampleCosts 2))"
    by (simp add: create_begin_def sampleEnv_def idleProvider_def initialProvider_def)
  have c: "fst (create getFeePayers sampleEntropy (sampleEnv\<lparr>connection := Some deafConnection\<rparr>)
            idleProvider initialWorld) = Inr ()"
    by (simp add: create_def create_begin_def create_end_def sampleEnv_def idleProvider_def
        initialProvider_def case_prod_beta split: sum.splits)
  from create_deaf_fails b c show ?thesis by blast
qed

section \<open>The exclusive gate\<close>

lemma initial_gate:
  "length (inFlight initialSystem) = (if creationLock (prov initialSystem) then 1 else 0)"
  by (simp add: inFlight_def initialSystem_def initialProvider_def)

text \<open>
  Claim C2, as the code has it. In every run of the provider the number of create and
  close operations in flight is one when the lock is held and zero when it is free.
  While the lock is held, a call of \<open>create\<close> or \<open>close\<close> starts no operation and
  leaves the provider as it is; when the values its earlier checks ask for are there
  (connection and wallet, for \<open>create\<close> also program id and costs), it warns and returns
  without an error. A call that lacks one of these values throws the error of the first
  check that fails, whether the lock is held or not, and changes nothing. The end of an
  operation frees the lock on success and on failure, and a call that finds the lock free
  leaves it free, however it ends.
\<close>

theorem exclusive_gate:
  "length (inFlight (run feePayersOf rng initialSystem as)) =
     (if creationLock (prov (run feePayersOf rng initialSystem as)) then 1 else 0)
   \<and> (creationLock s \<longrightarrow>
        fst (snd (create feePayersOf rng e s w)) = s
      \<and> fst (snd (close feePayersOf rng e s w)) = s
      \<and> (\<forall>t. fst (create_begin e s w) \<noteq> Inr (Some t))
      \<and> (\<forall>t. fst (close_begin e s w) \<noteq> Inr (Some t)))
   \<and> (creationLock s \<and> connection e \<noteq> None \<and> breakProgramId e \<noteq> None \<and> wallet e \<noteq> None
        \<and> renderedCosts e \<noteq> None \<longrightarrow>
        create feePayersOf rng e s w = (Inr (), s, emit WarnCreationLocked w))
   \<and> (creationLock s \<and> connection e \<noteq> None \<and> wallet e \<noteq> None \<longrightarrow>
        close feePayersOf rng e s w = (Inr (), s, emit WarnClosingLocked w))
   \<and> (connection e = None \<longrightarrow>
        create feePayersOf rng e s w = (Inl InvalidConnection, s, w)
      \<and> close feePayersOf rng e s w = (Inl CantCloseUntilConnectionValid, s, w))
   \<and> (connection e \<noteq> None \<and> breakProgramId e = None \<longrightarrow>
        create feePayersOf rng e s w = (Inl MissingBreakProgramId, s, w))
   \<and> (connection e \<noteq> None \<and> breakProgramId e \<noteq> None \<and> wallet e = None \<longrightarrow>
        create feePayersOf rng e s w = (Inl MissingWallet, s, w))
   \<and> (connection e \<noteq> None \<and> breakProgramId e \<noteq> None \<and> wallet e \<noteq> None
        \<and> renderedCosts e = None \<longrightarrow>
        create feePayersOf rng e s w = (Inl CalculatingCosts, s, w))
   \<and> (connection e \<noteq> None \<and> wallet e = None \<longrightarrow>
        close feePayersOf rng e s w = (Inl CantCreateIfWalletNotSetup, s, w))
   \<and> \<not> creationLock (fst (snd (create_end r s' w')))
   \<and> \<not> creationLock (fst (snd (close_end r' s' w')))
   \<and> (\<not> creationLock s \<longrightarrow>
        \<not> creationLock (fst (snd (create feePayersOf rng e s w)))
      \<and> \<not> creationLock (fst (snd (close feePayersOf rng e s w))))"
proof -
  have 1: "length (inFlight (run feePayersOf rng initialSystem as)) =
     (if creationLock (prov (run feePayersOf rng initialSystem as)) then 1 else 0)"
    by (rule run_gate [OF initial_gate])
  have 2: "creationLock s \<longrightarrow>
        fst (snd (create feePayersOf rng e s w)) = s
      \<and> fst (snd (close feePayersOf rng e s w)) = s
      \<and> (\<forall>t. fst (create_begin e s w) \<noteq> Inr (Some t))
      \<and> (\<forall>t. fst (close_begin e s w) \<noteq> Inr (Some t))"
    by (simp add: create_def create_begin_def close_def close_begin_def split: option.splits)
  have 3: "creationLock s \<and> connection e \<noteq> None \<and> breakProgramId e \<noteq> None \<and> wallet e \<noteq> None
        \<and> renderedCosts e \<noteq> None \<longrightarrow>
        create feePayersOf rng e s w = (Inr (), s, emit WarnCreationLocked w)"
    by (auto simp: create_def create_begin_def)
  have 4: "creationLock s \<and> connection e \<noteq> None \<and> wallet e \<noteq> None \<longrightarrow>
        close feePayersOf rng e s w = (Inr (), s, emit WarnClosingLocked w)"
    by (auto simp: close_def close_begin_def)
  have 5: "connection e = None \<longrightarrow>
        create feePayersOf rng e s w = (Inl InvalidConnection, s, w)
      \<and> close feePayersOf rng e s w = (Inl CantCloseUntilConnectionValid, s, w)"
    by (simp add: create_def create_begin_def close_def close_begin_def)
  have 6: "connection e \<noteq> None \<and> breakProgramId e = None \<longrightarrow>
        create feePayersOf rng e s w = (Inl MissingBreakProgramId, s, w)"
    by (auto simp: create_def create_begin_def)
  have 7: "connection e \<noteq> None \<and> breakProgramId e \<noteq> None \<and> wallet e = None \<longrightarrow>
        create feePayersOf rng e s w = (Inl MissingWallet, s, w)"
    by (auto simp: create_def create_begin_def)
  have 8: "connection e \<noteq> None \<and> breakProgramId e \<noteq> None \<and> wallet e \<noteq> None
        \<and> renderedCosts e = None \<longrightarrow>
        create feePayersOf rng e s w = (Inl CalculatingCosts, s, w)"
    by (auto simp: create_def create_begin_def)
  have 9: "connection e \<noteq> None \<and> wallet e = None \<longrightarrow>
        close feePayersOf rng e s w = (Inl CantCreateIfWalletNotSetup, s, w)"
    by (auto simp: close_def close_begin_def)
  have 10: "\<not> creationLock s \<longrightarrow>
        \<not> creationLock (fst (snd (create feePayersOf rng e s w)))
      \<and> \<not> creationLock (fst (snd (close feePayersOf rng e s w)))"
    by (simp add: create_def create_begin_def close_def close_begin_def case_prod_beta
        create_end_lock close_end_lock split: option.splits)
  show ?thesis
    using 1 2 3 4 5 6 7 8 9 create_end_lock [of r s' w'] close_end_lock [of r' s' w'] 10
    by (intro conjI)
qed

lemma gate_run_example:
  "run getFeePayers sampleEntropy initialSystem
      [RunEffect sampleEnv, Advance 0,
       CallCreate (sampleEnv\<lparr>renderedCosts :=
          Some \<lparr>total_lamports = Num 5566, feeAccountCost = Num 2620, programAccountCost = Num 163\<rparr>\<rparr>),
       CallCreate (sampleEnv\<lparr>renderedStatus := creating, renderedCosts :=
          Some \<lparr>total_lamports = Num 5566, feeAccountCost = Num 2620, programAccountCost = Num 163\<rparr>\<rparr>),
       CallClose (sampleEnv\<lparr>renderedStatus := creating, renderedCosts :=
          Some \<lparr>total_lamports = Num 5566, feeAccountCost = Num 2620, programAccountCost = Num 163\<rparr>\<rparr>)] =
   \<lparr>prov = \<lparr>costs = Some \<lparr>total_lamports = Num 5566, feeAccountCost = Num 2620,
                            programAccountCost = Num 163\<rparr>,
            status = creating, accounts = None, creationLock = True, calculationCounter = 1\<rparr>,
    outside = \<lparr>requests = 3, generated = 0, events = [WarnCreationLocked, WarnClosingLocked]\<rparr>,
    pending = [CreateTask goodConnection (PublicKey 2000) sampleWallet
                 \<lparr>total_lamports = Num 5566, feeAccountCost = Num 2620,
                   programAccountCost = Num 163\<rparr> 2]\<rparr>"
  by (simp add: run_def initialSystem_def initialProvider_def initialWorld_def sampleEnv_def
      effect_def spawn_def dropTask_def costRound_def calculateCosts_def rpc_def
      programSpace_of_two calculateTransactionsPerAccount_def TX_PER_BYTE_def goodConnection_def
      create_begin_def close_begin_def emit_def Let_def roundDouble_exact)

theorem exclusive_gate_witness:
  "length (inFlight (run getFeePayers sampleEntropy initialSystem
      [RunEffect sampleEnv, Advance 0,
       CallCreate (sampleEnv\<lparr>renderedCosts :=
          Some \<lparr>total_lamports = Num 5566, feeAccountCost = Num 2620, programAccountCost = Num 163\<rparr>\<rparr>),
       CallCreate (sampleEnv\<lparr>renderedStatus := creating, renderedCosts :=
          Some \<lparr>total_lamports = Num 5566, feeAccountCost = Num 2620, programAccountCost = Num 163\<rparr>\<rparr>),
       CallClose (sampleEnv\<lparr>renderedStatus := creating, renderedCosts :=
          Some \<lparr>total_lamports = Num 5566, feeAccountCost = Num 2620, programAccountCost = Num 163\<rparr>\<rparr>)])) = 1
   \<and> create getFeePayers sampleEntropy sampleEnv
        (idleProvider\<lparr>creationLock := True, status := creating\<rparr>) initialWorld =
       (Inr (), idleProvider\<lparr>creationLock := True, status := creating\<rparr>,
        emit WarnCreationLocked initialWorld)
   \<and> close getFeePayers sampleEntropy sampleEnv
        (idleProvider\<lparr>creationLock := True, status := creating\<rparr>) initialWorld =
       (Inr (), idleProvider\<lparr>creationLock := True, status := creating\<rparr>,
        emit WarnClosingLocked initialWorld)
   \<and> create getFeePayers sampleEntropy (sampleEnv\<lparr>breakProgramId := None\<rparr>)
        (idleProvider\<lparr>creationLock := True, status := creating\<rparr>) initialWorld =
       (Inl MissingBreakProgramId, idleProvider\<lparr>creationLock := True, status := creating\<rparr>,
        initialWorld)
   \<and> \<not> creationLock (fst (snd (create getFeePayers sampleEntropy sampleEnv idleProvider initialWorld)))
   \<and> \<not> creationLock (fst (snd (close getFeePayers sampleEntropy sampleEnv idleProvider initialWorld)))"
proof -
  let ?c = "Some \<lparr>total_lamports = Num 5566, feeAccountCost = Num 2620, programAccountCost = Num 163\<rparr>"
  let ?as = "[RunEffect sampleEnv, Advance 0,
       CallCreate (sampleEnv\<lparr>renderedCosts := ?c\<rparr>),
       CallCreate (sampleEnv\<lparr>renderedStatus := creating, renderedCosts := ?c\<rparr>),
       CallClose (sampleEnv\<lparr>renderedStatus := creating, renderedCosts := ?c\<rparr>)]"
  let ?held = "idleProvider\<lparr>creationLock := True, status := creating\<rparr>"
  let ?n = "sampleEnv\<lparr>breakProgramId := None\<rparr>"
  have l: "creationLock (prov (run getFeePayers sampleEntropy initialSystem ?as))"
    by (simp only: gate_run_example system.simps provider.simps)
  have h: "creationLock ?held" by simp
  have e: "connection sampleEnv \<noteq> None" "breakProgramId sampleEnv \<noteq> None"
    "wallet sampleEnv \<noteq> None" "renderedCosts sampleEnv \<noteq> None"
    by (simp_all add: sampleEnv_def)
  have n: "connection ?n \<noteq> None" "breakProgramId ?n = None"
    by (simp_all add: sampleEnv_def)
  have i: "\<not> creationLock idleProvider" by (simp add: idleProvider_def initialProvider_def)
  note a = exclusive_gate [where feePayersOf = getFeePayers and rng = sampleEntropy and as = ?as
      and s = ?held and e = sampleEnv and w = initialWorld]
  note b = exclusive_gate [where feePayersOf = getFeePayers and rng = sampleEntropy and as = ?as
      and s = idleProvider and e = sampleEnv and w = initialWorld]
  note c = exclusive_gate [where feePayersOf = getFeePayers and rng = sampleEntropy and as = ?as
      and s = ?held and e = ?n and w = initialWorld]
  from a l have 1: "length (inFlight (run getFeePayers sampleEntropy initialSystem ?as)) = 1"
    by (simp only: if_True)
  from a h e have 2: "create getFeePayers sampleEntropy sampleEnv ?held initialWorld =
       (Inr (), ?held, emit WarnCreationLocked initialWorld)"
    by blast
  from a h e have 3: "close getFeePayers sampleEntropy sampleEnv ?held initialWorld =
       (Inr (), ?held, emit WarnClosingLocked initialWorld)"
    by blast
  from c n have 5: "create getFeePayers sampleEntropy ?n ?held initialWorld =
       (Inl MissingBreakProgramId, ?held, initialWorld)"
    by blast
  from b i have 4: "\<not> creationLock (fst (snd (create getFeePayers sampleEntropy sampleEnv idleProvider initialWorld)))"
    "\<not> creationLock (fst (snd (close getFeePayers sampleEntropy sampleEnv idleProvider initialWorld)))"
    by blast+
  from 1 2 3 5 4 show ?thesis by (intro conjI)
qed

text \<open>
  Claim C2 as stated fails where a check that comes before the lock fails: with the lock
  held and no wallet, \<open>close\<close> and \<open>create\<close> throw.
\<close>

theorem gate_held_call_can_throw:
  "creationLock (idleProvider\<lparr>creationLock := True, status := creating\<rparr>)
   \<and> close getFeePayers sampleEntropy (sampleEnv\<lparr>wallet := None\<rparr>)
        (idleProvider\<lparr>creationLock := True, status := creating\<rparr>) initialWorld =
       (Inl CantCreateIfWalletNotSetup,
        idleProvider\<lparr>creationLock := True, status := creating\<rparr>, initialWorld)
   \<and> create getFeePayers sampleEntropy (sampleEnv\<lparr>wallet := None\<rparr>)
        (idleProvider\<lparr>creationLock := True, status := creating\<rparr>) initialWorld =
       (Inl MissingWallet,
        idleProvider\<lparr>creationLock := True, status := creating\<rparr>, initialWorld)"
  by (simp add: close_def close_begin_def create_def create_begin_def sampleEnv_def)

section \<open>Lemmas about the batching loop\<close>

lemma retries_outcome:
  "fst (submitWithRetries c tx signers r w) = Inr ()
   \<or> fst (submitWithRetries c tx signers r w) = Inl CouldntConfirmTransaction"
proof (induction r arbitrary: w)
  case 0
  then show ?case by simp
next
  case (Suc r)
  show ?case
  proof (cases "confirmTransaction c (requests w) tx signers (Some confirmed)")
    case (Inl err)
    from send_fail [OF Inl] Suc.IH show ?thesis by simp
  next
    case (Inr u)
    from send_ok [OF Inr] show ?thesis by simp
  qed
qed

lemma retries_generated:
  "generated (snd (submitWithRetries c tx signers r w)) = generated w"
proof (induction r arbitrary: w)
  case 0
  then show ?case by simp
next
  case (Suc r)
  show ?case
  proof (cases "confirmTransaction c (requests w) tx signers (Some confirmed)")
    case (Inl err)
    from send_fail [OF Inl] Suc.IH show ?thesis by (simp add: emit_def)
  next
    case (Inr u)
    from send_ok [OF Inr] show ?thesis by simp
  qed
qed

lemma retries_confirmed:
  assumes "fst (submitWithRetries c tx signers r w) = Inr ()" and "0 < r"
  shows "confirmedSends (events (snd (submitWithRetries c tx signers r w))) =
           confirmedSends (events w) @ [(tx, signers)]"
  using assms
proof (induction r arbitrary: w)
  case 0
  then show ?case by simp
next
  case (Suc r)
  show ?case
  proof (cases "confirmTransaction c (requests w) tx signers (Some confirmed)")
    case (Inr u)
    from send_ok [OF Inr] show ?thesis by (simp add: confirmedSends_append)
  next
    case (Inl err)
    note s = send_fail [OF Inl]
    show ?thesis
    proof (cases "r = 0")
      case True
      with s Suc.prems show ?thesis by simp
    next
      case False
      let ?w2 = "emit (ErrorRetriesRemaining r err)
                   \<lparr>requests = Suc (requests w), generated = generated w,
                      events = events w @ [Sent tx signers (Some confirmed) False]\<rparr>"
      have step: "submitWithRetries c tx signers (Suc r) w = submitWithRetries c tx signers r ?w2"
        using s False by simp
      have ev: "confirmedSends (events ?w2) = confirmedSends (events w)"
        by (simp add: emit_def confirmedSends_append)
      from Suc.prems(1) have "fst (submitWithRetries c tx signers r ?w2) = Inr ()"
        by (simp only: step)
      from Suc.IH [OF this] False show ?thesis
        by (simp only: step ev)
    qed
  qed
qed

lemma batch_outcome:
  assumes "length newProgram = length newFeePayers"
  shows "fst (underscore_createAccountBatch c pid payer cs newFeePayers newProgram space w) = Inr ()
       \<or> fst (underscore_createAccountBatch c pid payer cs newFeePayers newProgram space w) =
           Inl CouldntConfirmTransaction"
  using assms retries_outcome by (simp add: underscore_createAccountBatch_def)

lemma batch_generated:
  "generated (snd (underscore_createAccountBatch c pid payer cs newFeePayers newProgram space w)) =
     generated w"
  by (simp add: underscore_createAccountBatch_def retries_generated)

lemma batch_confirmed:
  assumes "length newProgram = length newFeePayers"
    and "fst (underscore_createAccountBatch c pid payer cs newFeePayers newProgram space w) = Inr ()"
  shows "confirmedSends (events (snd (underscore_createAccountBatch c pid payer cs newFeePayers newProgram space w))) =
           confirmedSends (events w) @
             [(batchTransaction pid payer cs newFeePayers newProgram space, payer # newProgram)]"
  using assms retries_confirmed [of c _ "payer # newProgram" 3 w]
  by (simp add: underscore_createAccountBatch_def)

lemma slice_length_eq:
  "length xs = length ys \<Longrightarrow> length (slice xs i j) = length (slice ys i j)"
  by (simp add: slice_def)

lemma createBatches_outcome:
  assumes "length feePayers = length program'"
  shows "fst (createBatches c pid payer cs feePayers program' space P i w) = Inr ()
       \<or> fst (createBatches c pid payer cs feePayers program' space P i w) =
           Inl CouldntConfirmTransaction"
  using assms
proof (induction c pid payer cs feePayers program' space P i w rule: createBatches.induct)
  case (1 c pid payer cs feePayers program' space P i w)
  let ?b = "underscore_createAccountBatch c pid payer cs
              (slice feePayers i (i + BATCH_SIZE)) (slice program' i (i + BATCH_SIZE)) space w"
  have len: "length (slice program' i (i + BATCH_SIZE)) = length (slice feePayers i (i + BATCH_SIZE))"
    using "1.prems" by (simp add: slice_def)
  show ?case
  proof (cases "i < P")
    case False
    then show ?thesis by (simp add: createBatches.simps)
  next
    case True
    obtain x y where b: "?b = (x, y)" by (cases ?b)
    from batch_outcome [OF len, of c pid payer cs space w] b
    have x: "x = Inr () \<or> x = Inl CouldntConfirmTransaction" by simp
    show ?thesis
    proof (cases x)
      case (Inl err)
      with x True b show ?thesis
        by (subst (1 2) createBatches.simps) simp
    next
      case (Inr ok)
      from "1.IH" [OF True b [symmetric] Inr "1.prems"] True b Inr show ?thesis
        by (subst (1 2) createBatches.simps) simp
    qed
  qed
qed

lemma createBatches_generated:
  "generated (snd (createBatches c pid payer cs feePayers program' space P i w)) = generated w"
proof (induction c pid payer cs feePayers program' space P i w rule: createBatches.induct)
  case (1 c pid payer cs feePayers program' space P i w)
  let ?b = "underscore_createAccountBatch c pid payer cs
              (slice feePayers i (i + BATCH_SIZE)) (slice program' i (i + BATCH_SIZE)) space w"
  show ?case
  proof (cases "i < P")
    case False
    then show ?thesis by (simp add: createBatches.simps)
  next
    case True
    obtain x y where b: "?b = (x, y)" by (cases ?b)
    from batch_generated [of c pid payer cs "slice feePayers i (i + BATCH_SIZE)"
        "slice program' i (i + BATCH_SIZE)" space w] b
    have g: "generated y = generated w" by simp
    show ?thesis
    proof (cases x)
      case (Inl err)
      with True b g show ?thesis
        by (subst createBatches.simps) simp
    next
      case (Inr ok)
      from "1.IH" [OF True b [symmetric] Inr] True b Inr g show ?thesis
        by (subst createBatches.simps) simp
    qed
  qed
qed

lemma batch_count_step:
  assumes "i < P"
  shows "(P - i + 4) div 5 = Suc ((P - (i + 5) + 4) div 5)"
proof -
  define d where "d = P - i - 1"
  have a: "P - i + 4 = d + 5" using assms by (simp add: d_def)
  have b: "P - (i + 5) = d - 4" using assms by (simp add: d_def)
  have c: "(d + 5) div 5 = Suc (d div 5)" by simp
  show ?thesis
  proof (cases "d < 4")
    case True
    then have "d div 5 = 0" "(d - 4 + 4) div 5 = 0" by simp_all
    then show ?thesis by (simp only: a b c)
  next
    case False
    then have "d - 4 + 4 = d" by simp
    then show ?thesis by (simp only: a b c)
  qed
qed

lemma createBatches_confirmed:
  assumes "length feePayers = length program'"
    and "fst (createBatches c pid payer cs feePayers program' space P i w) = Inr ()"
  shows "confirmedSends (events (snd (createBatches c pid payer cs feePayers program' space P i w))) =
           confirmedSends (events w) @
             map (\<lambda>k. (batchTransaction pid payer cs
                          (slice feePayers (i + 5 * k) (i + 5 * k + 5))
                          (slice program' (i + 5 * k) (i + 5 * k + 5)) space,
                        payer # slice program' (i + 5 * k) (i + 5 * k + 5)))
               [0..<(P - i + 4) div 5]"
  using assms
proof (induction c pid payer cs feePayers program' space P i w rule: createBatches.induct)
  case (1 c pid payer cs feePayers program' space P i w)
  let ?b = "underscore_createAccountBatch c pid payer cs
              (slice feePayers i (i + BATCH_SIZE)) (slice program' i (i + BATCH_SIZE)) space w"
  let ?f = "\<lambda>i k. (batchTransaction pid payer cs
                          (slice feePayers (i + 5 * k) (i + 5 * k + 5))
                          (slice program' (i + 5 * k) (i + 5 * k + 5)) space,
                        payer # slice program' (i + 5 * k) (i + 5 * k + 5))"
  have len: "length (slice program' i (i + BATCH_SIZE)) = length (slice feePayers i (i + BATCH_SIZE))"
    using "1.prems"(1) by (simp add: slice_def)
  show ?case
  proof (cases "i < P")
    case False
    then show ?thesis by (simp add: createBatches.simps)
  next
    case True
    obtain x y where b: "?b = (x, y)" by (cases ?b)
    have unf: "createBatches c pid payer cs feePayers program' space P i w =
                 (case x of Inl err \<Rightarrow> (Inl err, y)
                  | Inr ok \<Rightarrow> createBatches c pid payer cs feePayers program' space P (i + BATCH_SIZE) y)"
      using True b by (subst createBatches.simps) simp
    show ?thesis
    proof (cases x)
      case (Inl err)
      with unf "1.prems"(2) show ?thesis by simp
    next
      case (Inr ok)
      then have xr: "x = Inr ()" by simp
      from unf Inr have rec: "createBatches c pid payer cs feePayers program' space P i w =
          createBatches c pid payer cs feePayers program' space P (i + BATCH_SIZE) y"
        by simp
      from b xr have "fst ?b = Inr ()" by simp
      from batch_confirmed [OF len this] b
      have first: "confirmedSends (events y) = confirmedSends (events w) @ [?f i 0]"
        by (simp add: BATCH_SIZE_def)
      from "1.prems"(2) rec
      have ok': "fst (createBatches c pid payer cs feePayers program' space P (i + BATCH_SIZE) y) = Inr ()"
        by simp
      from "1.IH" [OF True b [symmetric] Inr "1.prems"(1) ok']
      have rest: "confirmedSends (events (snd (createBatches c pid payer cs feePayers program' space P (i + BATCH_SIZE) y))) =
           confirmedSends (events y) @ map (?f (i + BATCH_SIZE)) [0..<(P - (i + BATCH_SIZE) + 4) div 5]"
        by simp
      have shift: "map (?f (i + BATCH_SIZE)) [0..<n] = map (?f i) (map Suc [0..<n])" for n
        by (simp add: BATCH_SIZE_def add.assoc)
      have "map (?f i) [0..<(P - i + 4) div 5] =
              ?f i 0 # map (?f (i + BATCH_SIZE)) [0..<(P - (i + BATCH_SIZE) + 4) div 5]"
        unfolding shift
        by (simp only: batch_count_step [OF True] BATCH_SIZE_def map_Suc_upt upt_conv_Cons [of 0] )
           (simp add: upt_conv_Cons)
      with first rest rec show ?thesis by simp
    qed
  qed
qed

section \<open>Slices of five\<close>

lemma slices_concat_from:
  "concat (map (\<lambda>k. slice xs (i + 5 * k) (i + 5 * k + 5)) [0..<(length xs - i + 4) div 5]) = drop i xs"
proof (induction "(length xs - i + 4) div 5" arbitrary: i)
  case 0
  then have "length xs - i + 4 < 5" by (simp add: div_eq_0_iff)
  then have "length xs \<le> i" by simp
  with 0 show ?case by simp
next
  case (Suc m)
  have lt: "i < length xs"
  proof (rule ccontr)
    assume "\<not> i < length xs"
    then have "(length xs - i + 4) div 5 = 0" by simp
    with Suc.hyps(2) show False by simp
  qed
  from batch_count_step [OF lt] Suc.hyps(2) have m: "m = (length xs - (i + 5) + 4) div 5"
    by simp
  have shift: "map (\<lambda>k. slice xs (i + 5 + 5 * k) (i + 5 + 5 * k + 5)) [0..<m] =
               map (\<lambda>k. slice xs (i + 5 * k) (i + 5 * k + 5)) (map Suc [0..<m])"
    by (simp add: add.assoc)
  have "concat (map (\<lambda>k. slice xs (i + 5 * k) (i + 5 * k + 5)) [0..<Suc m]) =
          slice xs i (i + 5) @ concat (map (\<lambda>k. slice xs (i + 5 + 5 * k) (i + 5 + 5 * k + 5)) [0..<m])"
    unfolding shift by (simp only: map_Suc_upt upt_conv_Cons [of 0 "Suc m"]) simp
  also have "\<dots> = slice xs i (i + 5) @ drop (i + 5) xs"
    using Suc.hyps(1) [OF m] m by simp
  also have "\<dots> = take 5 (drop i xs) @ drop 5 (drop i xs)"
    by (simp add: slice_def add.commute del: append_take_drop_id)
  also have "\<dots> = drop i xs" by (rule append_take_drop_id)
  finally show ?case using Suc.hyps(2) by simp
qed

lemma slices_concat:
  "concat (map (\<lambda>k. slice xs (5 * k) (5 * k + 5)) [0..<(length xs + 4) div 5]) = xs"
  using slices_concat_from [of xs 0] by simp

lemma slice_full:
  assumes "k + 1 < (length xs + 4) div 5"
  shows "length (slice xs (5 * k) (5 * k + 5)) = 5"
proof -
  from assms have "k + 2 \<le> (length xs + 4) div 5" by simp
  then have "(k + 2) * 5 \<le> length xs + 4"
    by (simp add: less_eq_div_iff_mult_less_eq)
  then show ?thesis by (simp add: slice_def)
qed

lemma slice_nonempty:
  assumes "k < (length xs + 4) div 5"
  shows "1 \<le> length (slice xs (5 * k) (5 * k + 5)) \<and> length (slice xs (5 * k) (5 * k + 5)) \<le> 5"
proof -
  from assms have "k + 1 \<le> (length xs + 4) div 5" by simp
  then have "(k + 1) * 5 \<le> length xs + 4"
    by (simp add: less_eq_div_iff_mult_less_eq)
  then show ?thesis by (simp add: slice_def)
qed

lemma slice_zip: "slice (zip xs ys) i j = zip (slice xs i j) (slice ys i j)"
  by (simp add: slice_def take_zip drop_zip)

lemma batch_count_ceiling: "nat \<lceil>rat_of_nat P / 5\<rceil> = (P + 4) div 5"
proof -
  have "\<lceil>(of_int (int P) :: rat) / of_int 5\<rceil> = - (- int P div 5)"
    by (rule ceiling_divide_eq_div)
  also have "\<dots> = (int P + 4) div 5" by presburger
  also have "\<dots> = int ((P + 4) div 5)" by (simp add: zdiv_int)
  finally show ?thesis by simp
qed

section \<open>The batches of a provisioning run\<close>

lemma create_fst:
  "fst (underscore_create feePayersOf rng c pid payer cs P w) =
     (case fst (createBatches c pid payer cs (feePayersOf P) (map rng [generated w..<generated w + P])
                  (calculateProgrampace P) P 0 (w\<lparr>generated := generated w + P\<rparr>)) of
        Inl err \<Rightarrow> Inl err
      | Inr ok \<Rightarrow>
          Inr \<lparr>program = map publicKey (map rng [generated w..<generated w + P]),
               feePayerKeypairs = feePayersOf P,
               accountCapacity = calculateTransactionsPerAccount (calculateProgrampace P)\<rparr>)"
  by (simp add: underscore_create_def newKeypairs_def Let_def split: prod.splits sum.splits)

lemma create_snd:
  "snd (underscore_create feePayersOf rng c pid payer cs P w) =
     snd (createBatches c pid payer cs (feePayersOf P) (map rng [generated w..<generated w + P])
            (calculateProgrampace P) P 0 (w\<lparr>generated := generated w + P\<rparr>))"
  by (simp add: underscore_create_def newKeypairs_def Let_def split: prod.splits sum.splits)

lemma retries_unconfirmed:
  assumes "fst (submitWithRetries c tx signers r w) \<noteq> Inr ()"
  shows "confirmedSends (events (snd (submitWithRetries c tx signers r w))) =
           confirmedSends (events w)"
  using assms
proof (induction r arbitrary: w)
  case 0
  then show ?case by simp
next
  case (Suc r)
  show ?case
  proof (cases "confirmTransaction c (requests w) tx signers (Some confirmed)")
    case (Inr u)
    from send_ok [OF Inr] Suc.prems show ?thesis by simp
  next
    case (Inl err)
    note s = send_fail [OF Inl]
    show ?thesis
    proof (cases "r = 0")
      case True
      with s show ?thesis by (simp add: confirmedSends_append)
    next
      case False
      let ?w2 = "emit (ErrorRetriesRemaining r err)
                   \<lparr>requests = Suc (requests w), generated = generated w,
                      events = events w @ [Sent tx signers (Some confirmed) False]\<rparr>"
      have step: "submitWithRetries c tx signers (Suc r) w = submitWithRetries c tx signers r ?w2"
        using s False by simp
      have ev: "confirmedSends (events ?w2) = confirmedSends (events w)"
        by (simp add: emit_def confirmedSends_append)
      from Suc.prems have "fst (submitWithRetries c tx signers r ?w2) \<noteq> Inr ()"
        unfolding step .
      from Suc.IH [OF this] show ?thesis
        by (simp only: step ev)
    qed
  qed
qed

lemma batch_unconfirmed:
  assumes "fst (underscore_createAccountBatch c pid payer cs newFeePayers newProgram space w) \<noteq> Inr ()"
  shows "confirmedSends (events (snd (underscore_createAccountBatch c pid payer cs newFeePayers newProgram space w))) =
           confirmedSends (events w)"
  using assms retries_unconfirmed [of c _ "payer # newProgram" 3 w]
  by (simp add: underscore_createAccountBatch_def Let_def split: if_splits)

lemma createBatches_confirmed_prefix:
  assumes "length feePayers = length program'"
  shows "\<exists>m \<le> (P - i + 4) div 5.
           confirmedSends (events (snd (createBatches c pid payer cs feePayers program' space P i w))) =
             confirmedSends (events w) @
               map (\<lambda>k. (batchTransaction pid payer cs
                            (slice feePayers (i + 5 * k) (i + 5 * k + 5))
                            (slice program' (i + 5 * k) (i + 5 * k + 5)) space,
                          payer # slice program' (i + 5 * k) (i + 5 * k + 5)))
                 [0..<m]"
  using assms
proof (induction c pid payer cs feePayers program' space P i w rule: createBatches.induct)
  case (1 c pid payer cs feePayers program' space P i w)
  let ?b = "underscore_createAccountBatch c pid payer cs
              (slice feePayers i (i + BATCH_SIZE)) (slice program' i (i + BATCH_SIZE)) space w"
  let ?f = "\<lambda>i k. (batchTransaction pid payer cs
                          (slice feePayers (i + 5 * k) (i + 5 * k + 5))
                          (slice program' (i + 5 * k) (i + 5 * k + 5)) space,
                        payer # slice program' (i + 5 * k) (i + 5 * k + 5))"
  have len: "length (slice program' i (i + BATCH_SIZE)) = length (slice feePayers i (i + BATCH_SIZE))"
    using "1.prems"(1) by (simp add: slice_def)
  show ?case
  proof (cases "i < P")
    case False
    then have "confirmedSends (events (snd (createBatches c pid payer cs feePayers program' space P i w))) =
                 confirmedSends (events w) @ map (?f i) [0..<0]"
      by (simp add: createBatches.simps)
    then show ?thesis by blast
  next
    case True
    obtain x y where b: "?b = (x, y)" by (cases ?b)
    have unf: "createBatches c pid payer cs feePayers program' space P i w =
                 (case x of Inl err \<Rightarrow> (Inl err, y)
                  | Inr ok \<Rightarrow> createBatches c pid payer cs feePayers program' space P (i + BATCH_SIZE) y)"
      using True b by (subst createBatches.simps) simp
    show ?thesis
    proof (cases x)
      case (Inl err)
      with b have "fst ?b \<noteq> Inr ()" by simp
      from batch_unconfirmed [OF this] b
      have "confirmedSends (events y) = confirmedSends (events w)" by simp
      with unf Inl
      have "confirmedSends (events (snd (createBatches c pid payer cs feePayers program' space P i w))) =
                 confirmedSends (events w) @ map (?f i) [0..<0]"
        by simp
      then show ?thesis by blast
    next
      case (Inr ok)
      then have xr: "x = Inr ()" by simp
      from unf Inr have rec: "createBatches c pid payer cs feePayers program' space P i w =
          createBatches c pid payer cs feePayers program' space P (i + BATCH_SIZE) y"
        by simp
      from b xr have "fst ?b = Inr ()" by simp
      from batch_confirmed [OF len this] b
      have first: "confirmedSends (events y) = confirmedSends (events w) @ [?f i 0]"
        by (simp add: BATCH_SIZE_def)
      from "1.IH" [OF True b [symmetric] Inr "1.prems"(1)]
      obtain m where m: "m \<le> (P - (i + BATCH_SIZE) + 4) div 5"
        and rest: "confirmedSends (events (snd (createBatches c pid payer cs feePayers program' space P (i + BATCH_SIZE) y))) =
           confirmedSends (events y) @ map (?f (i + BATCH_SIZE)) [0..<m]"
        by blast
      have shift: "map (?f (i + BATCH_SIZE)) [0..<n] = map (?f i) (map Suc [0..<n])" for n
        by (simp add: BATCH_SIZE_def add.assoc)
      have "map (?f i) [0..<Suc m] = ?f i 0 # map (?f (i + BATCH_SIZE)) [0..<m]"
        unfolding shift
        by (simp only: map_Suc_upt upt_conv_Cons [of 0 "Suc m"]) simp
      with first rest rec
      have "confirmedSends (events (snd (createBatches c pid payer cs feePayers program' space P i w))) =
              confirmedSends (events w) @ map (?f i) [0..<Suc m]"
        by simp
      moreover from m batch_count_step [OF True] have "Suc m \<le> (P - i + 4) div 5"
        by (simp add: BATCH_SIZE_def)
      ultimately show ?thesis by blast
    qed
  qed
qed

lemma create_good_twelve: 
  "\<not> isl (fst (underscore_create getFeePayers sampleEntropy goodConnection (PublicKey 2000)
                sampleWallet sampleCosts 12 initialWorld))"
  by code_simp

lemma twelve_in_fives: "nat \<lceil>rat_of_nat 12 / 5\<rceil> = 3"
  by code_simp

text \<open>
  Claim C3. Let \<open>getFeePayers(P)\<close> have length \<open>P\<close>. The batches of \<open>_create\<close> are
  the slices of five of the fee payers and of the program keypairs, taken with the same
  bounds and in index order; there are \<open>ceil(P / 5)\<close> of them. On every run the
  transactions that got confirmed are those of the first batches, one for each batch and
  in this order, and on a run that returns a pool they are those of all the batches.
  Every batch but the last holds five pairs, every batch holds between one and five, and
  the pairs of the batches, one batch after the other, are the \<open>P\<close> pairs of the whole
  pool: each pair is in exactly one batch.
\<close>

theorem create_partitions_into_batches:
  assumes "length (feePayersOf P) = P"
    and "program' = map rng [generated w..<generated w + P]"
    and "batches = map (\<lambda>k. (slice (feePayersOf P) (5 * k) (5 * k + 5),
                               slice program' (5 * k) (5 * k + 5)))
                     [0..<nat \<lceil>rat_of_nat P / 5\<rceil>]"
    and "submitted = map (\<lambda>(newFeePayers, newProgram).
                    (batchTransaction pid payer cs newFeePayers newProgram (calculateProgrampace P),
                     payer # newProgram)) batches"
    and "after = snd (underscore_create feePayersOf rng c pid payer cs P w)"
  shows "(\<exists>m \<le> length batches.
            confirmedSends (events after) = confirmedSends (events w) @ take m submitted)
       \<and> (\<not> isl (fst (underscore_create feePayersOf rng c pid payer cs P w)) \<longrightarrow>
            confirmedSends (events after) = confirmedSends (events w) @ submitted)
       \<and> length batches = nat \<lceil>rat_of_nat P / 5\<rceil>
       \<and> (\<forall>k. k + 1 < length batches \<longrightarrow>
              length (fst (batches ! k)) = 5 \<and> length (snd (batches ! k)) = 5)
       \<and> (\<forall>k < length batches.
              length (fst (batches ! k)) = length (snd (batches ! k))
            \<and> 1 \<le> length (snd (batches ! k)) \<and> length (snd (batches ! k)) \<le> 5)
       \<and> concat (map (\<lambda>(newFeePayers, newProgram). zip newFeePayers newProgram) batches) =
           zip (feePayersOf P) program'
       \<and> length (zip (feePayersOf P) program') = P"
proof -
  let ?n = "nat \<lceil>rat_of_nat P / 5\<rceil>"
  let ?w0 = "w\<lparr>generated := generated w + P\<rparr>"
  let ?f = "\<lambda>k. (batchTransaction pid payer cs
                          (slice (feePayersOf P) (0 + 5 * k) (0 + 5 * k + 5))
                          (slice program' (0 + 5 * k) (0 + 5 * k + 5)) (calculateProgrampace P),
                        payer # slice program' (0 + 5 * k) (0 + 5 * k + 5))"
  have lp: "length program' = P" using assms(2) by simp
  have lens: "length (feePayersOf P) = length program'" using assms(1) lp by simp
  have n: "?n = (P + 4) div 5" by (rule batch_count_ceiling)
  have nf: "?n = (length (feePayersOf P) + 4) div 5" using n assms(1) by simp
  have np: "?n = (length program' + 4) div 5" using n lp by simp
  have nz: "?n = (length (zip (feePayersOf P) program') + 4) div 5" using n lp assms(1) by simp
  have lb: "length batches = ?n" using assms(3) by simp
  have sub: "submitted = map ?f [0..<?n]"
    unfolding assms(4) assms(3) by (simp add: comp_def)
  have nth: "batches ! k = (slice (feePayersOf P) (5 * k) (5 * k + 5), slice program' (5 * k) (5 * k + 5))"
    if "k < ?n" for k
    using that assms(3) by simp
  have aft: "after = snd (createBatches c pid payer cs (feePayersOf P) program'
                  (calculateProgrampace P) P 0 ?w0)"
    unfolding assms(5) create_snd assms(2) ..
  have ev0: "confirmedSends (events ?w0) = confirmedSends (events w)" by simp
  from createBatches_confirmed_prefix [OF lens, of P 0 c pid payer cs "calculateProgrampace P" ?w0]
  obtain m where m: "m \<le> (P + 4) div 5"
    and pre: "confirmedSends (events after) = confirmedSends (events w) @ map ?f [0..<m]"
    unfolding aft ev0 by auto
  have "take m submitted = map ?f [0..<m]"
    unfolding sub using m n by (simp add: take_map min_def)
  with pre m n lb have 0: "\<exists>m \<le> length batches.
            confirmedSends (events after) = confirmedSends (events w) @ take m submitted"
    by auto
  have 1: "confirmedSends (events after) = confirmedSends (events w) @ submitted"
    if ok: "\<not> isl (fst (underscore_create feePayersOf rng c pid payer cs P w))"
  proof -
    from ok have "fst (createBatches c pid payer cs (feePayersOf P) program'
                  (calculateProgrampace P) P 0 ?w0) = Inr ()"
      unfolding create_fst assms(2) by (simp split: sum.splits)
    from createBatches_confirmed [OF lens this] show ?thesis
      unfolding aft sub n by simp
  qed
  have 3: "\<forall>k. k + 1 < length batches \<longrightarrow>
              length (fst (batches ! k)) = 5 \<and> length (snd (batches ! k)) = 5"
  proof (intro allI impI)
    fix k assume k: "k + 1 < length batches"
    then have "k < ?n" using lb by simp
    note b = nth [OF this]
    from k lb nf have "length (slice (feePayersOf P) (5 * k) (5 * k + 5)) = 5"
      by (intro slice_full) simp
    moreover from k lb np have "length (slice program' (5 * k) (5 * k + 5)) = 5"
      by (intro slice_full) simp
    ultimately show "length (fst (batches ! k)) = 5 \<and> length (snd (batches ! k)) = 5"
      using b by simp
  qed
  have 4: "\<forall>k < length batches.
              length (fst (batches ! k)) = length (snd (batches ! k))
            \<and> 1 \<le> length (snd (batches ! k)) \<and> length (snd (batches ! k)) \<le> 5"
  proof (intro allI impI)
    fix k assume k: "k < length batches"
    then have kn: "k < ?n" using lb by simp
    note b = nth [OF kn]
    from kn np have "k < (length program' + 4) div 5" by simp
    from slice_nonempty [OF this] slice_length_eq [OF lens, of "5 * k" "5 * k + 5"] b
    show "length (fst (batches ! k)) = length (snd (batches ! k))
            \<and> 1 \<le> length (snd (batches ! k)) \<and> length (snd (batches ! k)) \<le> 5"
      by simp
  qed
  have "concat (map (\<lambda>(newFeePayers, newProgram). zip newFeePayers newProgram) batches) =
          concat (map (\<lambda>k. slice (zip (feePayersOf P) program') (5 * k) (5 * k + 5)) [0..<?n])"
    unfolding assms(3) by (simp add: comp_def slice_zip)
  also have "\<dots> = zip (feePayersOf P) program'"
    unfolding nz by (rule slices_concat)
  finally have 5: "concat (map (\<lambda>(newFeePayers, newProgram). zip newFeePayers newProgram) batches) =
           zip (feePayersOf P) program'" .
  have 6: "length (zip (feePayersOf P) program') = P" using lp assms(1) by simp
  from 0 1 lb 3 4 5 6 show ?thesis by blast
qed

theorem create_partitions_into_batches_witness:
  "map (\<lambda>(tx, signers). length (tl signers))
     (confirmedSends (events (snd (underscore_create getFeePayers sampleEntropy goodConnection
        (PublicKey 2000) sampleWallet sampleCosts 12 initialWorld)))) =
   [5, 5, 2]"
proof -
  have len: "length (getFeePayers 12) = 12" by (simp add: getFeePayers_def)
  have three: "[0..<3] = [0, 1, 2]" by (simp add: upt_conv_Cons)
  note t = create_partitions_into_batches [where feePayersOf = getFeePayers and P = 12
      and rng = sampleEntropy and w = initialWorld and pid = "PublicKey 2000"
      and payer = sampleWallet and cs = sampleCosts and c = goodConnection,
      OF len refl refl refl refl, unfolded twelve_in_fives three]
  from t create_good_twelve
  have "confirmedSends (events (snd (underscore_create getFeePayers sampleEntropy goodConnection
        (PublicKey 2000) sampleWallet sampleCosts 12 initialWorld))) =
     confirmedSends (events initialWorld) @
             map (\<lambda>(newFeePayers, newProgram).
                    (batchTransaction (PublicKey 2000) sampleWallet sampleCosts newFeePayers newProgram (calculateProgrampace 12),
                     sampleWallet # newProgram))
               (map (\<lambda>k. (slice (getFeePayers 12) (5 * k) (5 * k + 5),
                               slice (map sampleEntropy [generated initialWorld..<generated initialWorld + 12]) (5 * k) (5 * k + 5)))
                     [0, 1, 2])"
    by blast
  then show ?thesis
    by (simp add: initialWorld_def slice_def)
qed

section \<open>Batch lengths and the pool\<close>

text \<open>
  Claim C10. With \<open>getFeePayers(P)\<close> of length \<open>P\<close>, the two slices that the loop of
  \<open>_create\<close> hands to \<open>_createAccountBatch\<close> have the same length at every index,
  and neither the loop (entered at any index, in any world) nor \<open>_create\<close> ends with
  the internal error of line 253.
\<close>

theorem batch_lengths_always_agree:
  assumes "length (feePayersOf P) = P"
    and "program' = map rng [generated w..<generated w + P]"
  shows "(\<forall>accountIndex.
            length (slice program' accountIndex (accountIndex + BATCH_SIZE)) =
            length (slice (feePayersOf P) accountIndex (accountIndex + BATCH_SIZE)))
       \<and> fst (underscore_create feePayersOf rng c pid payer cs P w) \<noteq> Inl InternalError
       \<and> (\<forall>accountIndex w'.
            fst (createBatches c pid payer cs (feePayersOf P) program' (calculateProgrampace P) P
                   accountIndex w') \<noteq> Inl InternalError)"
proof -
  have lens: "length (feePayersOf P) = length program'" using assms by simp
  have 1: "\<forall>accountIndex.
            length (slice program' accountIndex (accountIndex + BATCH_SIZE)) =
            length (slice (feePayersOf P) accountIndex (accountIndex + BATCH_SIZE))"
    using lens by (simp add: slice_def)
  have 3: "fst (createBatches c pid payer cs (feePayersOf P) program' (calculateProgrampace P) P
                   accountIndex w') \<noteq> Inl InternalError" for accountIndex w'
    using createBatches_outcome [OF lens, of c pid payer cs "calculateProgrampace P" P accountIndex w']
    by auto
  have 2: "fst (underscore_create feePayersOf rng c pid payer cs P w) \<noteq> Inl InternalError"
    unfolding create_fst assms(2) [symmetric]
    using 3 [of 0 "w\<lparr>generated := generated w + P\<rparr>"]
    by (auto split: sum.splits)
  from 1 2 3 show ?thesis by blast
qed

theorem batch_lengths_always_agree_witness:
  "fst (underscore_create getFeePayers sampleEntropy deafConnection (PublicKey 2000) sampleWallet
          sampleCosts 12 initialWorld) \<noteq> Inl InternalError
   \<and> length (slice (map sampleEntropy [generated initialWorld..<generated initialWorld + 12]) 10 (10 + BATCH_SIZE)) =
       length (slice (getFeePayers 12) 10 (10 + BATCH_SIZE))"
proof -
  have len: "length (getFeePayers 12) = 12" by (simp add: getFeePayers_def)
  from batch_lengths_always_agree [of getFeePayers 12
        "map sampleEntropy [generated initialWorld..<generated initialWorld + 12]"
        sampleEntropy initialWorld deafConnection "PublicKey 2000" sampleWallet sampleCosts,
      OF len refl]
  show ?thesis by blast
qed

text \<open>
  The enumeration by lane has the length asked for, at every count. A helper that
  returned another number of keypairs would reach the internal error: with no fee payer
  for one program account the first batch is refused before anything is submitted.
\<close>

lemma getFeePayers_length: "length (getFeePayers count) = count"
  by (simp add: getFeePayers_def)

lemma short_fee_payers_reach_internal_error:
  "underscore_create (\<lambda>count. []) sampleEntropy goodConnection (PublicKey 2000) sampleWallet
      sampleCosts 1 initialWorld =
     (Inl InternalError, \<lparr>requests = 0, generated = 1, events = []\<rparr>)"
  by code_simp

text \<open>
  What a pool that \<open>_create\<close> returns holds (lines 330-334): the public keys of the
  keypairs made for the program accounts, the keypairs \<open>getFeePayers\<close> returned, and the
  transactions one fee payer covers.
\<close>

lemma create_pool:
  assumes "fst (underscore_create feePayersOf rng c pid payer cs P w) = Inr cfg"
  shows "program cfg = map (\<lambda>n. publicKey (rng n)) [generated w..<generated w + P]
       \<and> feePayerKeypairs cfg = feePayersOf P
       \<and> accountCapacity cfg = calculateTransactionsPerAccount (calculateProgrampace P)"
proof -
  from assms have "cfg = \<lparr>program = map publicKey (map rng [generated w..<generated w + P]),
               feePayerKeypairs = feePayersOf P,
               accountCapacity = calculateTransactionsPerAccount (calculateProgrampace P)\<rparr>"
    unfolding create_fst by (simp split: sum.splits)
  then show ?thesis by (simp add: comp_def)
qed


end
